theory Spec2Isabelle
  imports Complex_Main "HOL-Library.Word"
begin

unbundle bit_operations_syntax

section \<open>The live-conversation audio session of Career Compass\<close>

text \<open>
  A shallow embedding of \<^verbatim>\<open>src/components/LiveConvo.tsx\<close>: the base64 helpers
  \<^verbatim>\<open>encode\<close> and \<open>decode\<close>, the PCM conversions of \<^verbatim>\<open>decodeAudioData\<close> and
  \<^verbatim>\<open>onaudioprocess\<close>, and the callbacks of the \<^verbatim>\<open>LiveConvo\<close> component
  (\<^verbatim>\<open>cleanup\<close>, \<^verbatim>\<open>startConversation\<close>, \<^verbatim>\<open>onopen\<close>, \<^verbatim>\<open>onmessage\<close>,
  \<^verbatim>\<open>onerror\<close>, \<^verbatim>\<open>onclose\<close>, \<^verbatim>\<open>handleInterruptSpeech\<close>,
  \<^verbatim>\<open>handleControlButtonClick\<close> and the two effects) as functions on an explicit state.
\<close>

subsection \<open>Exceptions\<close>

text \<open>The exceptions that the browser functions called by the source can throw.\<close>

datatype js_error =
    InvalidCharacterError  \<comment> \<open>\<^verbatim>\<open>atob\<close> on a string that is not base64\<close>
  | RangeError             \<comment> \<open>\<^verbatim>\<open>new Int16Array(buffer)\<close> on an odd number of bytes\<close>
  | NotSupportedError      \<comment> \<open>\<^verbatim>\<open>createBuffer\<close> with no channel or no frame\<close>
  | TypeError              \<comment> \<open>a property of \<^verbatim>\<open>null\<close> is read\<close>

subsection \<open>Base64: \<^verbatim>\<open>btoa\<close> and \<^verbatim>\<open>atob\<close>\<close>

text \<open>
  A JavaScript binary string is a string whose code units are all below 256; it is modelled by
  \<^typ>\<open>string\<close>, whose characters are exactly the 256 byte values. \<^verbatim>\<open>btoa\<close> raises on a
  code unit above 255, which this type excludes, so it is total here.

  \<^verbatim>\<open>btoa\<close> and \<^verbatim>\<open>atob\<close> are browser functions; they are written out after the
  HTML standard (forgiving-base64 encode and decode).
\<close>

definition b64_alphabet :: string where
  "b64_alphabet = ''ABCDEFGHIJKLMNOPQRSTUVWXYZabcdefghijklmnopqrstuvwxyz0123456789+/''"

definition b64_char :: "nat \<Rightarrow> char" where
  "b64_char i = b64_alphabet ! (i mod 64)"

definition b64_index :: "char \<Rightarrow> nat option" where
  "b64_index c = map_of (zip b64_alphabet [0..<64]) c"

fun btoa :: "string \<Rightarrow> string" where
  "btoa [] = []"
| "btoa [a] =
     (let n = (of_char a :: nat) * 65536
      in [b64_char (n div 262144), b64_char (n div 4096 mod 64), CHR ''='', CHR ''=''])"
| "btoa [a, b] =
     (let n = (of_char a :: nat) * 65536 + of_char b * 256
      in [b64_char (n div 262144), b64_char (n div 4096 mod 64),
          b64_char (n div 64 mod 64), CHR ''=''])"
| "btoa (a # b # c # rest) =
     (let n = (of_char a :: nat) * 65536 + of_char b * 256 + of_char c
      in [b64_char (n div 262144), b64_char (n div 4096 mod 64),
          b64_char (n div 64 mod 64), b64_char (n mod 64)] @ btoa rest)"

definition ascii_whitespace :: "char \<Rightarrow> bool" where
  "ascii_whitespace c \<longleftrightarrow> (of_char c :: nat) \<in> {9, 10, 12, 13, 32}"

text \<open>Step 2 of the decoder: a string of length divisible by four loses one or two final \<open>=\<close>.\<close>

definition strip_padding :: "string \<Rightarrow> string" where
  "strip_padding d =
     (if length d mod 4 = 0 then
        (case rev d of
           x # y # r \<Rightarrow>
             if x = CHR ''='' \<and> y = CHR ''='' then rev r
             else if x = CHR ''='' then rev (y # r)
             else d
         | _ \<Rightarrow> d)
      else d)"

text \<open>
  Steps 5 to 9: every four sextets give three bytes; two left-over sextets give one byte (the
  last four bits are dropped), three give two bytes (the last two bits are dropped).
\<close>

fun atob_groups :: "nat list \<Rightarrow> string" where
  "atob_groups [] = []"
| "atob_groups [p] = []"
| "atob_groups [p, q] = (let n = (p * 64 + q) div 16 in [char_of n])"
| "atob_groups [p, q, r] =
     (let n = (p * 4096 + q * 64 + r) div 4 in [char_of (n div 256), char_of (n mod 256)])"
| "atob_groups (p # q # r # s # rest) =
     (let n = p * 262144 + q * 4096 + r * 64 + s
      in [char_of (n div 65536), char_of (n div 256 mod 256), char_of (n mod 256)]
         @ atob_groups rest)"

definition atob :: "string \<Rightarrow> js_error + string" where
  "atob data =
     (let d = strip_padding (filter (\<lambda>c. \<not> ascii_whitespace c) data)
      in if length d mod 4 = 1 then Inl InvalidCharacterError
         else (case those (map b64_index d) of
                 None \<Rightarrow> Inl InvalidCharacterError
               | Some sextets \<Rightarrow> Inr (atob_groups sextets)))"

text \<open>
  For the proofs: the sextets that \<^verbatim>\<open>btoa\<close> writes as characters of the alphabet, and the
  number of \<open>=\<close> that it appends.
\<close>

fun b64_sextets :: "string \<Rightarrow> nat list" where
  "b64_sextets [] = []"
| "b64_sextets [a] =
     (let n = (of_char a :: nat) * 65536 in [n div 262144, n div 4096 mod 64])"
| "b64_sextets [a, b] =
     (let n = (of_char a :: nat) * 65536 + of_char b * 256
      in [n div 262144, n div 4096 mod 64, n div 64 mod 64])"
| "b64_sextets (a # b # c # rest) =
     (let n = (of_char a :: nat) * 65536 + of_char b * 256 + of_char c
      in [n div 262144, n div 4096 mod 64, n div 64 mod 64, n mod 64] @ b64_sextets rest)"

definition b64_pad :: "string \<Rightarrow> nat" where
  "b64_pad s = (if length s mod 3 = 1 then 2 else if length s mod 3 = 2 then 1 else 0)"

subsection \<open>The helpers \<^verbatim>\<open>encode\<close> and \<^verbatim>\<open>decode\<close>\<close>

text \<open>A \<^verbatim>\<open>Uint8Array\<close> is a list of bytes.\<close>

type_synonym Uint8Array = "8 word list"

definition fromCharCode :: "8 word \<Rightarrow> char" where
  "fromCharCode b = char_of (unat b)"

definition charCodeAt :: "char \<Rightarrow> 8 word" where
  "charCodeAt c = of_nat (of_char c)"

text \<open>The loop of \<^verbatim>\<open>encode\<close> appends one character per byte to \<^verbatim>\<open>binary\<close>.\<close>

definition encode :: "Uint8Array \<Rightarrow> string" where
  "encode bytes = btoa (foldl (\<lambda>binary b. binary @ [fromCharCode b]) [] bytes)"

text \<open>
  The loop of \<^verbatim>\<open>decode\<close> stores the code of the \<open>i\<close>-th character at index \<open>i\<close> of a
  fresh array of the string's length. An exception of \<^verbatim>\<open>atob\<close> leaves \<^verbatim>\<open>decode\<close>.
\<close>

definition decode :: "string \<Rightarrow> js_error + Uint8Array" where
  "decode base64 =
     (case atob base64 of
        Inl e \<Rightarrow> Inl e
      | Inr binaryString \<Rightarrow>
          Inr (foldl (\<lambda>bytes i. bytes[i := charCodeAt (binaryString ! i)])
                 (replicate (length binaryString) 0) [0..<length binaryString]))"


subsection \<open>PCM samples\<close>

text \<open>
  \<^verbatim>\<open>new Int16Array(data.buffer)\<close> reads the bytes in pairs, low byte first (the byte order of
  every platform the browser runs on), and raises a \<^verbatim>\<open>RangeError\<close> when their number is odd.
  \<^verbatim>\<open>new Uint8Array(int16.buffer)\<close> is the opposite view.
\<close>

fun int16_view :: "Uint8Array \<Rightarrow> js_error + 16 word list" where
  "int16_view [] = Inr []"
| "int16_view [b] = Inl RangeError"
| "int16_view (lo # hi # rest) =
     (case int16_view rest of
        Inl e \<Rightarrow> Inl e
      | Inr ws \<Rightarrow> Inr ((word_cat hi lo :: 16 word) # ws))"

fun uint8_view :: "16 word list \<Rightarrow> Uint8Array" where
  "uint8_view [] = []"
| "uint8_view (w # ws) = (ucast w :: 8 word) # (ucast (drop_bit 8 w) :: 8 word) # uint8_view ws"

text \<open>
  Audio samples and times are IEEE floats in the source and real numbers here. Every finite
  float is a real number, the product of a 32-bit float with 32768 and the quotient of a 16-bit
  integer by 32768 are exact, and \<^verbatim>\<open>NaN\<close> and the infinities are left out. Sums of times
  are rounded in the source and exact here.

  A float stored into an \<^verbatim>\<open>Int16Array\<close> is truncated towards zero and reduced modulo
  \<open>2 ^ 16\<close>.
\<close>

definition js_trunc :: "real \<Rightarrow> int" where
  "js_trunc x = (if 0 \<le> x then \<lfloor>x\<rfloor> else \<lceil>x\<rceil>)"

definition toInt16 :: "real \<Rightarrow> 16 word" where
  "toInt16 x = word_of_int (js_trunc x)"

record AudioBuffer =
  numberOfChannels :: nat
  frames :: nat  \<comment> \<open>the buffer's \<^verbatim>\<open>length\<close>\<close>
  sampleRate :: real
  channelData :: "real list list"

definition duration :: "AudioBuffer \<Rightarrow> real" where
  "duration b = real (frames b) / sampleRate b"

text \<open>
  \<^verbatim>\<open>decodeAudioData\<close>. \<^verbatim>\<open>createBuffer\<close> takes the integer part of
  \<^verbatim>\<open>frameCount\<close> and raises when there is no channel or no frame; the writes of the loop
  beyond the buffer's length are ignored, so the loop fills exactly \<open>frameCount\<close> samples per
  channel. The audio context is used for \<^verbatim>\<open>createBuffer\<close> only and is not an argument
  here.
\<close>

definition decodeAudioData :: "Uint8Array \<Rightarrow> real \<Rightarrow> nat \<Rightarrow> js_error + AudioBuffer" where
  "decodeAudioData data rate numChannels =
     (case int16_view data of
        Inl e \<Rightarrow> Inl e
      | Inr dataInt16 \<Rightarrow>
          (let frameCount = length dataInt16 div numChannels
           in if numChannels = 0 \<or> frameCount = 0 then Inl NotSupportedError
              else Inr \<lparr> numberOfChannels = numChannels, frames = frameCount, sampleRate = rate,
                       channelData =
                         map (\<lambda>channel.
                                map (\<lambda>i. real_of_int (sint (dataInt16 ! (i * numChannels + channel)))
                                          / 32768)
                                    [0..<frameCount])
                             [0..<numChannels] \<rparr>))"

subsection \<open>The state of the component\<close>

datatype AIStatus = Idle | Connecting | Listening | Thinking | Speaking | Error

datatype Author = You | AI

text \<open>
  A JavaScript string is a sequence of 16-bit code units. The texts of the transcriptions are
  kept as such; \<open>codeUnits\<close> gives the code units of a text written with characters below
  256, whose code units are their character codes.
\<close>

type_synonym jsString = "16 word list"

definition codeUnits :: "string \<Rightarrow> jsString" where
  "codeUnits t = map (\<lambda>c. of_nat (of_char c)) t"

record Transcription =
  author :: Author
  text' :: jsString

datatype AudioContextState = Suspended | Running | Closed

record AudioContext =
  ctxId :: nat
  state :: AudioContextState

record PcmBlob =
  data :: string
  mimeType :: string

text \<open>One call of \<^verbatim>\<open>source.start\<close>, with the reading of the output clock in its handler.\<close>

record StartCall =
  source :: nat
  startAt :: real
  bufferDuration :: real
  clock :: real

text \<open>
  An item of \<^verbatim>\<open>localStorage\<close> is a string. \<^verbatim>\<open>JSON.stringify\<close> and
  \<^verbatim>\<open>JSON.parse\<close> are browser functions, inverse to each other on a list of transcript
  entries: the text that \<^verbatim>\<open>JSON.stringify\<close> gives for a list is \<open>Json\<close> of that list,
  and any other text is \<open>Text\<close>.
\<close>

datatype stored = Json "Transcription list" | Text string

text \<open>
  The state holds the React state (\<open>aiStatus\<close>, \<open>error\<close>, \<open>transcription\<close>), the
  refs, and what the browser keeps for the component: the pending timeouts, the local storage,
  and one log per kind of call on a browser object (track \<^verbatim>\<open>stop\<close>, node
  \<^verbatim>\<open>disconnect\<close>, context \<^verbatim>\<open>close\<close>, session \<^verbatim>\<open>close\<close>, source
  \<^verbatim>\<open>start\<close> and \<^verbatim>\<open>stop\<close>, \<^verbatim>\<open>sendRealtimeInput\<close>), in the order of the calls.
  Browser objects are numbers; a media stream is the list of its tracks; the set of sources is
  the list of its members in insertion order. \<open>statusTrace\<close> lists the arguments of the
  calls of \<^verbatim>\<open>setAIStatus\<close>. The calls on the session are made in a \<^verbatim>\<open>then\<close> of the
  session promise and are logged when they are queued there.
\<close>

record LiveConvo =
  aiStatus :: AIStatus
  error :: "string option"
  transcription :: "Transcription list"
  inputAudioContextRef :: "AudioContext option"
  outputAudioContextRef :: "AudioContext option"
  sessionPromiseRef :: "nat option"
  mediaStreamRef :: "nat list option"
  scriptProcessorRef :: "nat option"
  sourcesRef :: "nat list"
  currentInputTranscriptionRef :: jsString
  currentOutputTranscriptionRef :: jsString
  nextStartTimeRef :: real
  aiSpeakingTimerRef :: "nat option"
  statusTrace :: "AIStatus list"
  pendingTimers :: "nat set"
  nextId :: nat
  localStorage :: "string \<rightharpoonup> stored"
  trackStops :: "nat list"
  disconnects :: "nat list"
  contextCloses :: "nat list"
  sessionCloses :: "nat list"
  sourceStarts :: "StartCall list"
  sourceStops :: "nat list"
  sent :: "(nat \<times> PcmBlob) list"

definition LIVE_CONVO_STORAGE_KEY :: string where
  "LIVE_CONVO_STORAGE_KEY = ''careerCompassLiveConvoHistory''"

text \<open>The component before its first render, over a given local storage.\<close>

definition initial :: "(string \<rightharpoonup> stored) \<Rightarrow> LiveConvo" where
  "initial store =
     \<lparr> aiStatus = Idle, error = None, transcription = [],
       inputAudioContextRef = None, outputAudioContextRef = None, sessionPromiseRef = None,
       mediaStreamRef = None, scriptProcessorRef = None, sourcesRef = [],
       currentInputTranscriptionRef = [], currentOutputTranscriptionRef = [],
       nextStartTimeRef = 0, aiSpeakingTimerRef = None,
       statusTrace = [], pendingTimers = {}, nextId = 1, localStorage = store,
       trackStops = [], disconnects = [], contextCloses = [], sessionCloses = [],
       sourceStarts = [], sourceStops = [], sent = [] \<rparr>"

subsection \<open>Messages of the live session\<close>

text \<open>
  What \<^verbatim>\<open>onmessage\<close> reads of a \<^verbatim>\<open>LiveServerMessage\<close>: the two optional transcription
  objects of \<^verbatim>\<open>serverContent\<close>, each with its optional \<^verbatim>\<open>text\<close>; the flags
  \<^verbatim>\<open>turnComplete\<close> and \<^verbatim>\<open>interrupted\<close>; and the optional \<^verbatim>\<open>modelTurn\<close> with
  its optional list of parts, of which a part is given by the value of its
  \<^verbatim>\<open>inlineData?.data\<close>. A message without \<^verbatim>\<open>serverContent\<close> has none of them.
\<close>

record Content =
  parts :: "string option list option"

record LiveServerMessage =
  inputTranscription :: "jsString option option"
  outputTranscription :: "jsString option option"
  turnComplete :: bool
  modelTurn :: "Content option"
  interrupted :: bool

text \<open>
  Line 178, \<^verbatim>\<open>message.serverContent?.modelTurn?.parts[0]?.inlineData?.data\<close>: the access
  to \<^verbatim>\<open>parts[0]\<close> is not guarded, so a model turn without a list of parts raises a
  \<^verbatim>\<open>TypeError\<close>; an empty list of parts gives \<^verbatim>\<open>undefined\<close>.
\<close>

definition audioData :: "LiveServerMessage \<Rightarrow> js_error + string option" where
  "audioData message =
     (case modelTurn message of
        None \<Rightarrow> Inr None
      | Some content \<Rightarrow>
          (case parts content of
             None \<Rightarrow> Inl TypeError
           | Some [] \<Rightarrow> Inr None
           | Some (part # rest) \<Rightarrow> Inr part))"

text \<open>\<^verbatim>\<open>+=\<close> on a string appends the text \<^verbatim>\<open>undefined\<close> for a missing text.\<close>

definition js_text :: "jsString option \<Rightarrow> jsString" where
  "js_text t = (case t of None \<Rightarrow> codeUnits ''undefined'' | Some x \<Rightarrow> x)"

text \<open>
  \<^verbatim>\<open>String.prototype.trim\<close> removes the white space and the line terminators of
  JavaScript from both ends: the code units 9 to 13, 32, 160, 5760, 8192 to 8202, 8232, 8233,
  8239, 8287, 12288 and 65279.
\<close>

definition js_whitespace :: "16 word \<Rightarrow> bool" where
  "js_whitespace c \<longleftrightarrow>
     unat c \<in> {9, 10, 11, 12, 13, 32, 160, 5760, 8232, 8233, 8239, 8287, 12288, 65279} \<or>
     (8192 \<le> unat c \<and> unat c \<le> 8202)"

definition trim :: "jsString \<Rightarrow> jsString" where
  "trim s = rev (dropWhile js_whitespace (rev (dropWhile js_whitespace s)))"

subsection \<open>State setters and effects\<close>

definition setAIStatus :: "AIStatus \<Rightarrow> LiveConvo \<Rightarrow> LiveConvo" where
  "setAIStatus v s = s\<lparr>aiStatus := v, statusTrace := statusTrace s @ [v]\<rparr>"

definition setError :: "string option \<Rightarrow> LiveConvo \<Rightarrow> LiveConvo" where
  "setError v s = s\<lparr>error := v\<rparr>"

text \<open>
  The second effect of the component runs after every change of \<^verbatim>\<open>transcription\<close> and
  writes a non-empty list to the local storage. Every call of \<^verbatim>\<open>setTranscription\<close> in the
  source passes a fresh array, so the effect follows each of them.
\<close>

definition persistEffect :: "LiveConvo \<Rightarrow> LiveConvo" where
  "persistEffect s =
     (if length (transcription s) > 0
      then s\<lparr>localStorage := (localStorage s)(LIVE_CONVO_STORAGE_KEY \<mapsto> Json (transcription s))\<rparr>
      else s)"

definition setTranscription :: "Transcription list \<Rightarrow> LiveConvo \<Rightarrow> LiveConvo" where
  "setTranscription v s = persistEffect (s\<lparr>transcription := v\<rparr>)"

text \<open>
  The first effect, on mount: a stored item that is present and not the empty string is
  parsed; an exception of \<^verbatim>\<open>JSON.parse\<close> is caught and logged. A stored text that is
  not the text of a list of entries is taken to be empty or to make \<^verbatim>\<open>JSON.parse\<close>
  raise.
\<close>

definition mountEffect :: "LiveConvo \<Rightarrow> LiveConvo" where
  "mountEffect s =
     (case localStorage s LIVE_CONVO_STORAGE_KEY of
        None \<Rightarrow> s
      | Some (Json saved) \<Rightarrow> setTranscription saved s
      | Some (Text saved) \<Rightarrow> s)"

subsection \<open>Timers\<close>

text \<open>
  \<^verbatim>\<open>setTimeout\<close> returns a fresh handle, which is a positive number; \<^verbatim>\<open>clearTimeout\<close>
  removes a handle from the pending ones and does nothing for any other number.
\<close>

definition clearTimeout :: "nat \<Rightarrow> LiveConvo \<Rightarrow> LiveConvo" where
  "clearTimeout t s = s\<lparr>pendingTimers := pendingTimers s - {t}\<rparr>"

text \<open>\<^verbatim>\<open>if (aiSpeakingTimerRef.current) clearTimeout(aiSpeakingTimerRef.current)\<close>\<close>

definition clearSpeakingTimer :: "LiveConvo \<Rightarrow> LiveConvo" where
  "clearSpeakingTimer s =
     (case aiSpeakingTimerRef s of
        None \<Rightarrow> s
      | Some t \<Rightarrow> if t \<noteq> 0 then clearTimeout t s else s)"

text \<open>The callback of the timer that \<^verbatim>\<open>onmessage\<close> sets, run when the timer \<open>t\<close> fires.\<close>

definition timerFired :: "nat \<Rightarrow> LiveConvo \<Rightarrow> LiveConvo" where
  "timerFired t s =
     (if t \<in> pendingTimers s
      then setAIStatus Listening (s\<lparr>pendingTimers := pendingTimers s - {t}\<rparr>)
      else s)"

subsection \<open>\<^verbatim>\<open>cleanup\<close>\<close>

text \<open>
  \<^verbatim>\<open>AudioContext.close\<close> is taken to set the state of the context to \<^verbatim>\<open>closed\<close> at
  once. The callback passed to \<^verbatim>\<open>then\<close> closes the session once the promise is resolved.
\<close>

text \<open>Lines 99 to 102: every track of the stream is stopped and the ref is cleared.\<close>

definition stopTracks :: "LiveConvo \<Rightarrow> LiveConvo" where
  "stopTracks s =
     (case mediaStreamRef s of
        None \<Rightarrow> s
      | Some tracks \<Rightarrow> s\<lparr>trackStops := trackStops s @ tracks, mediaStreamRef := None\<rparr>)"

text \<open>Lines 103 to 106.\<close>

definition disconnectProcessor :: "LiveConvo \<Rightarrow> LiveConvo" where
  "disconnectProcessor s =
     (case scriptProcessorRef s of
        None \<Rightarrow> s
      | Some node \<Rightarrow> s\<lparr>disconnects := disconnects s @ [node], scriptProcessorRef := None\<rparr>)"

text \<open>Lines 107 to 112: a context that is present and not closed is closed.\<close>

definition closeInputContext :: "LiveConvo \<Rightarrow> LiveConvo" where
  "closeInputContext s =
     (case inputAudioContextRef s of
        None \<Rightarrow> s
      | Some c \<Rightarrow>
          if state c \<noteq> Closed
          then s\<lparr>contextCloses := contextCloses s @ [ctxId c],
                 inputAudioContextRef := Some (c\<lparr>state := Closed\<rparr>)\<rparr>
          else s)"

definition closeOutputContext :: "LiveConvo \<Rightarrow> LiveConvo" where
  "closeOutputContext s =
     (case outputAudioContextRef s of
        None \<Rightarrow> s
      | Some c \<Rightarrow>
          if state c \<noteq> Closed
          then s\<lparr>contextCloses := contextCloses s @ [ctxId c],
                 outputAudioContextRef := Some (c\<lparr>state := Closed\<rparr>)\<rparr>
          else s)"

text \<open>Lines 113 and 114.\<close>

definition closeSession :: "LiveConvo \<Rightarrow> LiveConvo" where
  "closeSession s =
     (case sessionPromiseRef s of
        None \<Rightarrow> s
      | Some session \<Rightarrow>
          s\<lparr>sessionCloses := sessionCloses s @ [session], sessionPromiseRef := None\<rparr>)"

text \<open>
  Lines 115 and 116: \<^verbatim>\<open>stop\<close> on every source of the set, in insertion order, then
  \<^verbatim>\<open>clear\<close>. The same two statements are in the two interruption handlers.
\<close>

definition stopSources :: "LiveConvo \<Rightarrow> LiveConvo" where
  "stopSources s = s\<lparr>sourceStops := sourceStops s @ sourcesRef s, sourcesRef := []\<rparr>"

definition cleanup :: "LiveConvo \<Rightarrow> LiveConvo" where
  "cleanup s0 =
     (let s1 = clearSpeakingTimer s0;
          s2 = stopTracks s1;
          s3 = disconnectProcessor s2;
          s4 = closeInputContext s3;
          s5 = closeOutputContext s4;
          s6 = closeSession s5;
          s7 = stopSources s6
      in setAIStatus Idle s7)"

subsection \<open>\<^verbatim>\<open>startConversation\<close> and the callbacks of the session\<close>

text \<open>
  \<^verbatim>\<open>startConversation\<close> is taken in one step, with the outcome of \<^verbatim>\<open>getUserMedia\<close>
  as its argument: \<open>None\<close> when the promise is rejected, the tracks of the stream otherwise.
  The two audio contexts and the session promise are fresh objects; a new audio context is
  suspended until the browser starts it.
\<close>

definition startConversation :: "nat list option \<Rightarrow> LiveConvo \<Rightarrow> LiveConvo" where
  "startConversation userMedia s0 =
     (let s1 = setAIStatus Connecting s0;
          s2 = setError None s1;
          s3 = setTranscription [] s2;
          s4 = s3\<lparr>nextStartTimeRef := 0\<rparr>
      in case userMedia of
           Some stream \<Rightarrow>
             (let n = nextId s4
              in s4\<lparr>mediaStreamRef := Some stream,
                    inputAudioContextRef := Some \<lparr>ctxId = n, state = Suspended\<rparr>,
                    outputAudioContextRef := Some \<lparr>ctxId = n + 1, state = Suspended\<rparr>,
                    sessionPromiseRef := Some (n + 2),
                    nextId := n + 3\<rparr>)
         | None \<Rightarrow>
             (let s5 = setError
                         (Some ''Could not access microphone. Please grant permission and try again.'')
                         s4;
                  s6 = setAIStatus Error s5
              in cleanup s6))"

text \<open>
  \<^verbatim>\<open>onopen\<close>. The non-null assertion on \<^verbatim>\<open>inputAudioContextRef.current\<close> is erased by
  the compiler: on \<^verbatim>\<open>null\<close> the call of \<^verbatim>\<open>createMediaStreamSource\<close> raises, after the
  status is set. An exception is returned with the state that the handler leaves behind.
\<close>

definition onopen :: "LiveConvo \<Rightarrow> (js_error \<times> LiveConvo) + LiveConvo" where
  "onopen s0 =
     (let s1 = setAIStatus Listening s0
      in case inputAudioContextRef s1 of
           None \<Rightarrow> Inl (TypeError, s1)
         | Some c \<Rightarrow>
             (let scriptProcessor = nextId s1
              in Inr (s1\<lparr>scriptProcessorRef := Some scriptProcessor,
                         nextId := scriptProcessor + 1\<rparr>)))"

text \<open>\<^verbatim>\<open>onaudioprocess\<close>, on the samples of channel 0 of the input buffer.\<close>

definition onaudioprocess :: "real list \<Rightarrow> LiveConvo \<Rightarrow> LiveConvo" where
  "onaudioprocess inputData s =
     (let int16 = map (\<lambda>x. toInt16 (x * 32768)) inputData;
          pcmBlob = \<lparr> data = encode (uint8_view int16), mimeType = ''audio/pcm;rate=16000'' \<rparr>
      in case sessionPromiseRef s of
           None \<Rightarrow> s
         | Some session \<Rightarrow> s\<lparr>sent := sent s @ [(session, pcmBlob)]\<rparr>)"

text \<open>Lines 164 to 176 of \<^verbatim>\<open>onmessage\<close>: the end of a turn.\<close>

definition flushTurn :: "LiveConvo \<Rightarrow> LiveConvo" where
  "flushTurn s0 =
     (let userInput = trim (currentInputTranscriptionRef s0);
          aiOutput = trim (currentOutputTranscriptionRef s0);
          newHistory = transcription s0
            @ (if userInput \<noteq> [] then [\<lparr>author = You, text' = userInput\<rparr>] else [])
            @ (if aiOutput \<noteq> [] then [\<lparr>author = AI, text' = aiOutput\<rparr>] else []);
          s1 = setTranscription newHistory s0;
          s2 = s1\<lparr>currentInputTranscriptionRef := []\<rparr>;
          s3 = s2\<lparr>currentOutputTranscriptionRef := []\<rparr>
      in setAIStatus Thinking s3)"

text \<open>
  Lines 178 to 198: an audio chunk, read when the output clock shows \<open>now\<close>. The handler is
  taken in one step, the \<^verbatim>\<open>await\<close> included.

  Lines 180 to 183: the status, the timer and the cursor.
\<close>

definition beginSpeaking :: "real \<Rightarrow> LiveConvo \<Rightarrow> LiveConvo" where
  "beginSpeaking now s0 =
     (let s1 = setAIStatus Speaking s0;
          s2 = clearSpeakingTimer s1
      in s2\<lparr>nextStartTimeRef := max (nextStartTimeRef s2) now\<rparr>)"

text \<open>Line 184: \<^verbatim>\<open>decodeAudioData(decode(audioData), ctx, 24000, 1)\<close>.\<close>

definition decodeChunk :: "string \<Rightarrow> js_error + AudioBuffer" where
  "decodeChunk audio =
     (case decode audio of
        Inl e \<Rightarrow> Inl e
      | Inr bytes \<Rightarrow> decodeAudioData bytes 24000 1)"

text \<open>
  Lines 185 to 197: a fresh source plays the buffer from the cursor on, the cursor moves to
  the end of the buffer, the source joins the set and a fresh timer is set.
  \<^verbatim>\<open>source.start\<close> raises on a negative time. \<^verbatim>\<open>Set.add\<close> appends a value that the
  set does not hold.
\<close>

definition scheduleBuffer ::
    "real \<Rightarrow> AudioBuffer \<Rightarrow> LiveConvo \<Rightarrow> (js_error \<times> LiveConvo) + LiveConvo" where
  "scheduleBuffer now audioBuffer s3 =
     (if nextStartTimeRef s3 < 0 then Inl (RangeError, s3)
      else
        (let src = nextId s3;
             s4 = s3\<lparr>sourceStarts := sourceStarts s3 @
                      [\<lparr>source = src, startAt = nextStartTimeRef s3,
                        bufferDuration = duration audioBuffer, clock = now\<rparr>]\<rparr>;
             s5 = s4\<lparr>nextStartTimeRef := nextStartTimeRef s4 + duration audioBuffer\<rparr>;
             s6 = s5\<lparr>sourcesRef :=
                      (if src \<in> set (sourcesRef s5) then sourcesRef s5
                       else sourcesRef s5 @ [src])\<rparr>;
             timer = src + 1
         in Inr (s6\<lparr>aiSpeakingTimerRef := Some timer,
                    pendingTimers := insert timer (pendingTimers s6),
                    nextId := src + 2\<rparr>)))"

definition playAudio :: "real \<Rightarrow> string \<Rightarrow> LiveConvo \<Rightarrow> (js_error \<times> LiveConvo) + LiveConvo" where
  "playAudio now audio s0 =
     (let s3 = beginSpeaking now s0
      in case decodeChunk audio of
           Inl e \<Rightarrow> Inl (e, s3)
         | Inr audioBuffer \<Rightarrow> scheduleBuffer now audioBuffer s3)"

text \<open>Lines 200 to 206: the interruption signalled by the remote side.\<close>

definition onInterrupted :: "LiveConvo \<Rightarrow> LiveConvo" where
  "onInterrupted s0 =
     (let s1 = clearSpeakingTimer s0;
          s2 = stopSources s1;
          s3 = s2\<lparr>nextStartTimeRef := 0\<rparr>
      in setAIStatus Listening s3)"

text \<open>Lines 158 to 163: the pieces of the two transcriptions are appended to the buffers.\<close>

definition appendTranscriptions :: "LiveServerMessage \<Rightarrow> LiveConvo \<Rightarrow> LiveConvo" where
  "appendTranscriptions message s0 =
     (let s1 = (case inputTranscription message of
                  None \<Rightarrow> s0
                | Some t \<Rightarrow>
                    s0\<lparr>currentInputTranscriptionRef := currentInputTranscriptionRef s0 @ js_text t\<rparr>)
      in case outputTranscription message of
           None \<Rightarrow> s1
         | Some t \<Rightarrow>
             s1\<lparr>currentOutputTranscriptionRef := currentOutputTranscriptionRef s1 @ js_text t\<rparr>)"

text \<open>
  Lines 178 and 179: the audio of the message is played when it is a non-empty string and the
  output context is present. An exception of line 178 leaves the handler before the status is
  touched.
\<close>

definition handleAudio ::
    "real \<Rightarrow> LiveServerMessage \<Rightarrow> LiveConvo \<Rightarrow> (js_error \<times> LiveConvo) + LiveConvo" where
  "handleAudio now message s =
     (case audioData message of
        Inl e \<Rightarrow> Inl (e, s)
      | Inr None \<Rightarrow> Inr s
      | Inr (Some audio) \<Rightarrow>
          if audio \<noteq> [] \<and> outputAudioContextRef s \<noteq> None then playAudio now audio s
          else Inr s)"

text \<open>Lines 158 to 176: the text part of \<^verbatim>\<open>onmessage\<close>.\<close>

definition handleText :: "LiveServerMessage \<Rightarrow> LiveConvo \<Rightarrow> LiveConvo" where
  "handleText message s0 =
     (let s2 = appendTranscriptions message s0
      in if turnComplete message then flushTurn s2 else s2)"

text \<open>
  \<^verbatim>\<open>onmessage\<close>: the text part, the audio part and, unless the audio part has raised, the
  interruption part.
\<close>

definition onmessage ::
    "real \<Rightarrow> LiveServerMessage \<Rightarrow> LiveConvo \<Rightarrow> (js_error \<times> LiveConvo) + LiveConvo" where
  "onmessage now message s0 =
     (let s3 = handleText message s0
      in case handleAudio now message s3 of
           Inl thrown \<Rightarrow> Inl thrown
         | Inr s4 \<Rightarrow> Inr (if interrupted message then onInterrupted s4 else s4))"

definition onerror :: "LiveConvo \<Rightarrow> LiveConvo" where
  "onerror s0 =
     (let s1 = setError (Some ''A connection error occurred. Please try again.'') s0;
          s2 = setAIStatus Error s1
      in cleanup s2)"

definition onclose :: "LiveConvo \<Rightarrow> LiveConvo" where
  "onclose s = cleanup s"

text \<open>The listener of the \<^verbatim>\<open>ended\<close> event of a source.\<close>

definition onended :: "nat \<Rightarrow> LiveConvo \<Rightarrow> LiveConvo" where
  "onended src s = s\<lparr>sourcesRef := removeAll src (sourcesRef s)\<rparr>"

subsection \<open>The control button\<close>

definition isSessionActive :: "LiveConvo \<Rightarrow> bool" where
  "isSessionActive s \<longleftrightarrow> aiStatus s \<noteq> Idle \<and> aiStatus s \<noteq> Error \<and> aiStatus s \<noteq> Connecting"

definition handleInterruptSpeech :: "LiveConvo \<Rightarrow> LiveConvo" where
  "handleInterruptSpeech s0 =
     (let s1 = (case aiSpeakingTimerRef s0 of
                  None \<Rightarrow> s0
                | Some t \<Rightarrow>
                    if t \<noteq> 0 then (clearTimeout t s0)\<lparr>aiSpeakingTimerRef := None\<rparr> else s0);
          s2 = stopSources s1;
          s3 = s2\<lparr>nextStartTimeRef := 0\<rparr>
      in setAIStatus Listening s3)"

definition handleControlButtonClick :: "nat list option \<Rightarrow> LiveConvo \<Rightarrow> LiveConvo" where
  "handleControlButtonClick userMedia s =
     (if aiStatus s = Speaking then handleInterruptSpeech s
      else if isSessionActive s then cleanup s
      else startConversation userMedia s)"

subsection \<open>Runs of the component\<close>

text \<open>
  The callbacks run one at a time on the event loop. An event is one callback with what it
  receives from outside. The button is disabled while the status is \<^verbatim>\<open>connecting\<close>. A
  handler that raises leaves its state behind, and the next event is handled from there.
\<close>

datatype event =
    Click "nat list option"
  | Open
  | Message real LiveServerMessage
  | AudioProcess "real list"
  | TimerFired nat
  | Ended nat
  | ErrorEvent
  | CloseEvent

definition settled :: "(js_error \<times> LiveConvo) + LiveConvo \<Rightarrow> LiveConvo" where
  "settled r = (case r of Inl (e, s) \<Rightarrow> s | Inr s \<Rightarrow> s)"

fun step :: "event \<Rightarrow> LiveConvo \<Rightarrow> LiveConvo" where
  "step (Click userMedia) s =
     (if aiStatus s = Connecting then s else handleControlButtonClick userMedia s)"
| "step Open s = settled (onopen s)"
| "step (Message now message) s = settled (onmessage now message s)"
| "step (AudioProcess inputData) s = onaudioprocess inputData s"
| "step (TimerFired t) s = timerFired t s"
| "step (Ended src) s = onended src s"
| "step ErrorEvent s = onerror s"
| "step CloseEvent s = onclose s"

fun run :: "event list \<Rightarrow> LiveConvo \<Rightarrow> LiveConvo" where
  "run [] s = s"
| "run (e # es) s = run es (step e s)"

subsection \<open>The timer of the component\<close>

text \<open>
  No timer is pending but the one whose handle the timer ref holds, and that handle is not 0.
\<close>

definition onlyRefTimer :: "LiveConvo \<Rightarrow> bool" where
  "onlyRefTimer s \<longleftrightarrow> pendingTimers s \<subseteq> set_option (aiSpeakingTimerRef s) - {0}"

subsection \<open>Schedules of playback\<close>

text \<open>
  Events that are not an interruption of the playback: everything but a click on the control
  button (which interrupts, tears down or starts a session) and a message with the
  interrupted flag.
\<close>

fun noInterruption :: "event \<Rightarrow> bool" where
  "noInterruption (Click userMedia) = False"
| "noInterruption (Message now message) = (\<not> interrupted message)"
| "noInterruption e = True"

text \<open>
  A list of start calls is back to back when each call starts no earlier than the call before
  it ends. It is well scheduled from a cursor \<open>c\<close> when, in addition, the first call starts no
  earlier than \<open>c\<close>, no call starts before the clock reading of its handler, and no duration is
  negative.
\<close>

fun backToBack :: "StartCall list \<Rightarrow> bool" where
  "backToBack [] = True"
| "backToBack [x] = True"
| "backToBack (x # y # rest) =
     (startAt x + bufferDuration x \<le> startAt y \<and> backToBack (y # rest))"

fun wellScheduled :: "real \<Rightarrow> StartCall list \<Rightarrow> bool" where
  "wellScheduled c [] = True"
| "wellScheduled c (x # rest) =
     (c \<le> startAt x \<and> clock x \<le> startAt x \<and> 0 \<le> bufferDuration x \<and>
      wellScheduled (startAt x + bufferDuration x) rest)"

subsection \<open>Delivery of capture frames\<close>

text \<open>
  The browser delivers a frame to \<^verbatim>\<open>onaudioprocess\<close> only while the processor node is
  connected, which is from \<^verbatim>\<open>onopen\<close> to \<^verbatim>\<open>cleanup\<close>, and its audio context is not
  closed.
\<close>

definition capturing :: "LiveConvo \<Rightarrow> bool" where
  "capturing s \<longleftrightarrow>
     scriptProcessorRef s \<noteq> None \<and>
     (case inputAudioContextRef s of None \<Rightarrow> False | Some c \<Rightarrow> state c \<noteq> Closed)"

subsection \<open>The events of a turn\<close>










subsection \<open>Example inputs\<close>

text \<open>
  A message that carries one audio chunk and nothing else: the base64 text of two zero bytes,
  which are one silent sample. A message that only carries a piece of the transcription of
  the user's speech, and one for the speech of the model. A message that only signals the end
  of the turn. A message that only signals an interruption. A message that signals an
  interruption and carries the base64 text of a single byte, which is no 16-bit sample.
\<close>

definition silence :: LiveServerMessage where
  "silence = \<lparr> inputTranscription = None, outputTranscription = None, turnComplete = False,
                modelTurn = Some \<lparr>parts = Some [Some ''AAA='']\<rparr>, interrupted = False \<rparr>"

definition heard :: "jsString \<Rightarrow> LiveServerMessage" where
  "heard t = \<lparr> inputTranscription = Some (Some t), outputTranscription = None,
                turnComplete = False, modelTurn = None, interrupted = False \<rparr>"

definition said :: "jsString \<Rightarrow> LiveServerMessage" where
  "said t = \<lparr> inputTranscription = None, outputTranscription = Some (Some t),
               turnComplete = False, modelTurn = None, interrupted = False \<rparr>"

definition turnEnd :: LiveServerMessage where
  "turnEnd = \<lparr> inputTranscription = None, outputTranscription = None, turnComplete = True,
                modelTurn = None, interrupted = False \<rparr>"

definition interruption :: LiveServerMessage where
  "interruption = \<lparr> inputTranscription = None, outputTranscription = None, turnComplete = False,
                     modelTurn = None, interrupted = True \<rparr>"

definition garbledInterruption :: LiveServerMessage where
  "garbledInterruption =
     \<lparr> inputTranscription = None, outputTranscription = None, turnComplete = False,
       modelTurn = Some \<lparr>parts = Some [Some ''AA=='']\<rparr>, interrupted = True \<rparr>"

text \<open>A local storage that holds a history of one entry.\<close>

definition savedStore :: "string \<rightharpoonup> stored" where
  "savedStore =
     [LIVE_CONVO_STORAGE_KEY \<mapsto> Json [\<lparr>author = AI, text' = codeUnits ''Hello''\<rparr>]]"

text \<open>
  The session after the user has started it with a microphone of one track and the connection
  has opened; the same session after one chunk of audio has arrived.
\<close>

definition listeningSession :: LiveConvo where
  "listeningSession = run [Click (Some [1]), Open] (initial Map.empty)"

definition speakingSession :: LiveConvo where
  "speakingSession = run [Click (Some [1]), Open, Message 0 silence] (initial Map.empty)"

section \<open>Properties\<close>

subsection \<open>Base64 round trip\<close>

lemma distinct_alphabet: "distinct b64_alphabet"
  by (simp add: b64_alphabet_def)

lemma length_alphabet: "length b64_alphabet = 64"
  by (simp add: b64_alphabet_def)

lemma b64_index_char: "i < 64 \<Longrightarrow> b64_index (b64_char i) = Some i"
  unfolding b64_index_def b64_char_def
  using map_of_zip_nth[of b64_alphabet "[0..<64]" i]
  by (simp add: distinct_alphabet length_alphabet)

lemma b64_char_in: "b64_char i \<in> set b64_alphabet"
  unfolding b64_char_def by (rule nth_mem) (simp add: length_alphabet)

lemma pad_notin: "CHR ''='' \<notin> set b64_alphabet"
  by (simp add: b64_alphabet_def)

lemma ws_notin: "c \<in> set b64_alphabet \<Longrightarrow> \<not> ascii_whitespace c"
  by (auto simp add: b64_alphabet_def ascii_whitespace_def)

lemma pad_not_ws: "\<not> ascii_whitespace CHR ''=''"
  by (simp add: ascii_whitespace_def)

lemma b64_char_not_pad: "b64_char i \<noteq> CHR ''=''"
  using b64_char_in[of i] pad_notin by metis

lemma b64_pad_step: "b64_pad (a # b # c # rest) = b64_pad rest"
  by (simp add: b64_pad_def)

lemma btoa_sextets:
  "btoa s = map b64_char (b64_sextets s) @ replicate (b64_pad s) CHR ''=''"
proof (induction s rule: btoa.induct)
  case 1 show ?case by (simp add: b64_pad_def)
next
  case (2 a) show ?case by (simp add: b64_pad_def Let_def numeral_2_eq_2)
next
  case (3 a b) show ?case by (simp add: b64_pad_def Let_def)
next
  case (4 a b c rest)
  then show ?case by (simp add: b64_pad_step Let_def)
qed

lemma div_262144_lt:
  fixes x y z :: nat
  assumes "x < 256" "y < 256" "z < 256"
  shows "(x * 65536 + y * 256 + z) div 262144 < 64"
proof -
  have "x * 65536 + y * 256 + z < 64 * 262144" using assms by linarith
  then show ?thesis by (rule less_mult_imp_div_less)
qed

lemma sextets_lt: "x \<in> set (b64_sextets s) \<Longrightarrow> x < 64"
proof (induction s rule: b64_sextets.induct)
  case (2 a)
  have "(of_char a :: nat) * 65536 div 262144 < 64"
    using div_262144_lt[of "of_char a" 0 0] by simp
  with 2 show ?case by (auto simp: Let_def)
next
  case (3 a b)
  have "((of_char a :: nat) * 65536 + of_char b * 256) div 262144 < 64"
    using div_262144_lt[of "of_char a" "of_char b" 0] by simp
  with 3 show ?case by (auto simp: Let_def)
next
  case (4 a b c rest)
  have "((of_char a :: nat) * 65536 + of_char b * 256 + of_char c) div 262144 < 64"
    using div_262144_lt[of "of_char a" "of_char b" "of_char c"] by simp
  with 4 show ?case by (auto simp: Let_def)
qed simp

lemma length_sextets:
  "length (b64_sextets s) mod 4 = (if b64_pad s = 0 then 0 else 4 - b64_pad s)"
proof (induction s rule: b64_sextets.induct)
  case (4 a b c rest)
  have "length (b64_sextets (a # b # c # rest)) = length (b64_sextets rest) + 4"
    by (simp add: Let_def)
  then show ?case using 4 by (simp add: b64_pad_step)
qed (simp_all add: b64_pad_def Let_def)

lemma length_btoa: "length (btoa s) mod 4 = 0"
proof -
  have "(length (b64_sextets s) + b64_pad s) mod 4 = (length (b64_sextets s) mod 4 + b64_pad s) mod 4"
    by (simp add: mod_add_left_eq)
  also have "\<dots> = 0" by (simp add: length_sextets b64_pad_def)
  finally show ?thesis by (simp add: btoa_sextets)
qed

lemma those_index: "\<forall>x\<in>set sx. x < 64 \<Longrightarrow> those (map b64_index (map b64_char sx)) = Some sx"
  by (induction sx) (simp_all add: b64_index_char)

lemma sextet_split2:
  fixes n :: nat
  shows "n div 262144 * 64 + n div 4096 mod 64 = n div 4096"
proof -
  have "n div 262144 = n div 4096 div 64" by (simp add: div_mult2_eq)
  then show ?thesis by simp
qed

lemma radix64_two:
  fixes a b c r s :: nat
  shows "a = b * 64 + r \<Longrightarrow> b = c * 64 + s \<Longrightarrow> c * 4096 + s * 64 + r = a"
  by simp

lemma sextet_split3:
  fixes n :: nat
  shows "n div 262144 * 4096 + n div 4096 mod 64 * 64 + n div 64 mod 64 = n div 64"
proof -
  have b: "n div 4096 = n div 64 div 64" by (simp add: div_mult2_eq)
  have 1: "n div 64 = n div 4096 * 64 + n div 64 mod 64" by (simp add: b)
  have 2: "n div 4096 = n div 262144 * 64 + n div 4096 mod 64"
    using sextet_split2[of n] by simp
  show ?thesis by (rule radix64_two[OF 1 2])
qed

lemma radix64_three:
  fixes a b r :: nat
  shows "a = b * 64 + r \<Longrightarrow> c * 4096 + s * 64 + t = b \<Longrightarrow> c * 262144 + s * 4096 + t * 64 + r = a"
  by auto

lemma sextet_split4:
  fixes n :: nat
  shows "n div 262144 * 262144 + n div 4096 mod 64 * 4096 + n div 64 mod 64 * 64 + n mod 64 = n"
proof -
  have 1: "n = n div 64 * 64 + n mod 64" by simp
  show ?thesis by (rule radix64_three[OF 1 sextet_split3])
qed

lemma bytes3:
  fixes x y z :: nat
  assumes "x < 256" "y < 256" "z < 256"
  shows "(x * 65536 + y * 256 + z) div 65536 = x"
    and "(x * 65536 + y * 256 + z) div 256 mod 256 = y"
    and "(x * 65536 + y * 256 + z) mod 256 = z"
proof -
  have "y * 256 + z < 65536" using assms by linarith
  then show "(x * 65536 + y * 256 + z) div 65536 = x"
    by (simp add: add.assoc)
  have e: "x * 65536 + y * 256 + z = z + (x * 256 + y) * 256" by simp
  have d: "(x * 65536 + y * 256 + z) div 256 = x * 256 + y"
    unfolding e using assms by simp
  show "(x * 65536 + y * 256 + z) div 256 mod 256 = y"
    unfolding d using assms by simp
  show "(x * 65536 + y * 256 + z) mod 256 = z"
    unfolding e using assms by (simp only: mod_mult_self1 mod_less)
qed

lemma bytes2:
  fixes x y :: nat
  assumes "x < 256" "y < 256"
  shows "(x * 65536 + y * 256) div 64 div 4 div 256 = x"
    and "(x * 65536 + y * 256) div 64 div 4 mod 256 = y"
proof -
  have e: "x * 65536 + y * 256 = (x * 256 + y) * 256" by simp
  have d: "(x * 65536 + y * 256) div 64 div 4 = x * 256 + y"
    unfolding e by (simp add: div_mult2_eq[symmetric])
  show "(x * 65536 + y * 256) div 64 div 4 div 256 = x"
    unfolding d using assms by simp
  show "(x * 65536 + y * 256) div 64 div 4 mod 256 = y"
    unfolding d using assms by simp
qed

lemma bytes1:
  fixes x :: nat
  shows "x * 65536 div 4096 div 16 = x"
  by (simp add: div_mult2_eq[symmetric])


lemma groups_sextets: "atob_groups (b64_sextets s) = s"
proof (induction s rule: b64_sextets.induct)
  case 1 show ?case by simp
next
  case (2 a)
  define x where "x = (of_char a :: nat)"
  have "(x * 65536 div 262144 * 64 + x * 65536 div 4096 mod 64) div 16 = x"
    unfolding sextet_split2 by (rule bytes1)
  then have "char_of ((x * 65536 div 262144 * 64 + x * 65536 div 4096 mod 64) div 16) = a"
    by (simp add: x_def)
  then show ?case by (simp add: Let_def x_def)
next
  case (3 a b)
  define x where "x = (of_char a :: nat)"
  define y where "y = (of_char b :: nat)"
  define n where "n = x * 65536 + y * 256"
  have x: "x < 256" "y < 256" by (simp_all add: x_def y_def)
  have "char_of ((n div 262144 * 4096 + n div 4096 mod 64 * 64 + n div 64 mod 64) div 4 div 256) = a"
     "char_of ((n div 262144 * 4096 + n div 4096 mod 64 * 64 + n div 64 mod 64) div 4 mod 256) = b"
    unfolding sextet_split3 n_def using bytes2[OF x] by (simp_all add: x_def y_def)
  then show ?case by (simp add: Let_def x_def y_def n_def)
next
  case (4 a b c rest)
  define x where "x = (of_char a :: nat)"
  define y where "y = (of_char b :: nat)"
  define z where "z = (of_char c :: nat)"
  define n where "n = x * 65536 + y * 256 + z"
  have x: "x < 256" "y < 256" "z < 256" by (simp_all add: x_def y_def z_def)
  have "char_of (n div 65536) = a" "char_of (n div 256 mod 256) = b" "char_of (n mod 256) = c"
    unfolding n_def using bytes3[OF x] by (simp_all add: x_def y_def z_def)
  then have "atob_groups ([n div 262144, n div 4096 mod 64, n div 64 mod 64, n mod 64] @ b64_sextets rest)
      = a # b # c # atob_groups (b64_sextets rest)"
    by (simp add: Let_def sextet_split4)
  with 4 show ?case by (simp add: Let_def x_def y_def z_def n_def)
qed

lemma strip_padding_btoa: "strip_padding (btoa s) = map b64_char (b64_sextets s)"
proof -
  let ?core = "map b64_char (b64_sextets s)"
  have len: "length (btoa s) mod 4 = 0" by (rule length_btoa)
  have nopad: "CHR ''='' \<notin> set ?core"
  proof
    assume "CHR ''='' \<in> set ?core"
    then obtain i where "b64_char i = CHR ''=''" by auto
    then show False using b64_char_not_pad by simp
  qed
  have "b64_pad s = 0 \<or> b64_pad s = 1 \<or> b64_pad s = 2"
    by (simp add: b64_pad_def)
  then consider "b64_pad s = 0" | "b64_pad s = 1" | "b64_pad s = 2"
    by auto
  then show ?thesis
  proof cases
    case 1
    then have eq: "btoa s = ?core" by (simp add: btoa_sextets)
    show ?thesis
    proof (cases "rev (btoa s)")
      case Nil
      then show ?thesis by (simp add: strip_padding_def eq[symmetric])
    next
      case (Cons x r)
      then have "x \<in> set (btoa s)" by (metis list.set_intros(1) set_rev)
      with nopad have "x \<noteq> CHR ''=''" unfolding eq by metis
      then show ?thesis using Cons
        by (simp add: strip_padding_def eq[symmetric] split: list.splits)
    qed
  next
    case 2
    then have eq: "btoa s = ?core @ [CHR ''='']" by (simp add: btoa_sextets)
    have "length (b64_sextets s) mod 4 = 3" using 2 by (simp add: length_sextets)
    then have "?core \<noteq> []" by auto
    then obtain y r where yr: "rev ?core = y # r" by (cases "rev ?core") auto
    then have "y \<in> set ?core" by (metis list.set_intros(1) set_rev)
    with nopad have y: "y \<noteq> CHR ''=''" by metis
    have c: "rev (y # r) = ?core" using yr by (metis rev_rev_ident)
    have rv: "rev (btoa s) = CHR ''='' # y # r"
      by (simp only: eq rev_append rev.simps append.simps yr)
    have "strip_padding (btoa s) = rev (y # r)"
      using y by (simp add: strip_padding_def len rv)
    then show ?thesis by (simp only: c)
  next
    case 3
    then have eq: "btoa s = ?core @ [CHR ''='', CHR ''='']"
      by (simp add: btoa_sextets numeral_2_eq_2)
    have rv: "rev (btoa s) = CHR ''='' # CHR ''='' # rev ?core"
      by (simp only: eq rev_append rev.simps append.simps)
    have "strip_padding (btoa s) = rev (rev ?core)"
      by (simp add: strip_padding_def len rv del: rev_rev_ident rev_map)
    then show ?thesis by (simp only: rev_rev_ident)
  qed
qed

lemma filter_btoa: "filter (\<lambda>c. \<not> ascii_whitespace c) (btoa s) = btoa s"
proof -
  have "\<forall>c\<in>set (btoa s). \<not> ascii_whitespace c"
    using ws_notin b64_char_in pad_not_ws by (auto simp: btoa_sextets)
  then show ?thesis by simp
qed

lemma atob_btoa: "atob (btoa s) = Inr s"
proof -
  have "length (b64_sextets s) mod 4 \<noteq> 1"
    by (simp add: length_sextets b64_pad_def)
  moreover have "those (map b64_index (map b64_char (b64_sextets s))) = Some (b64_sextets s)"
    by (rule those_index) (simp add: sextets_lt)
  ultimately show ?thesis
    by (simp add: atob_def filter_btoa strip_padding_btoa groups_sextets)
qed

lemma encode_binary: "foldl (\<lambda>binary b. binary @ [fromCharCode b]) acc bytes = acc @ map fromCharCode bytes"
  by (induction bytes arbitrary: acc) simp_all

lemma update_loop:
  "k \<le> length xs \<Longrightarrow>
     foldl (\<lambda>bytes i. bytes[i := f i]) xs [0..<k] = map f [0..<k] @ drop k xs"
proof (induction k)
  case 0 show ?case by simp
next
  case (Suc k)
  then have k: "k < length xs" by simp
  have d: "drop k xs = xs ! k # drop (Suc k) xs"
    using k by (simp add: Cons_nth_drop_Suc)
  have "(map f [0..<k] @ drop k xs)[k := f k] = map f [0..<k] @ (drop k xs)[0 := f k]"
    by (simp add: list_update_append)
  also have "\<dots> = map f [0..<k] @ f k # drop (Suc k) xs"
    by (subst d) simp
  finally have "(map f [0..<k] @ drop k xs)[k := f k] = map f [0..<k] @ f k # drop (Suc k) xs" .
  with Suc k show ?case by simp
qed

lemma decode_loop:
  assumes "length s = n"
  shows "foldl (\<lambda>bytes i. bytes[i := charCodeAt (s ! i)]) (replicate n 0) [0..<n]
     = map charCodeAt s"
proof -
  have "map (\<lambda>i. charCodeAt (s ! i)) [0..<length s] = map charCodeAt (map ((!) s) [0..<length s])"
    by simp
  also have "\<dots> = map charCodeAt s" by (simp only: map_nth)
  finally show ?thesis using assms by (simp add: update_loop)
qed

lemma charCode_roundtrip: "charCodeAt (fromCharCode b) = b"
proof -
  have "unat b < 256" using unsigned_less[of b, where 'a = nat] by simp
  then show ?thesis by (simp add: charCodeAt_def fromCharCode_def)
qed

lemma decode_encode: "decode (encode b) = Inr b"
proof -
  have "decode (encode b)
      = Inr (foldl (\<lambda>bytes i. bytes[i := charCodeAt (map fromCharCode b ! i)])
               (replicate (length b) 0) [0..<length b])"
    by (simp add: decode_def encode_def encode_binary atob_btoa del: upt_Suc)
  also have "\<dots> = Inr (map charCodeAt (map fromCharCode b))"
    by (subst decode_loop) simp_all
  also have "\<dots> = Inr b"
    by (simp add: comp_def charCode_roundtrip)
  finally show ?thesis .
qed


lemma encode_zero_sample: "encode [0, 128] = ''AIA=''"
  by (simp add: encode_def fromCharCode_def b64_char_def b64_alphabet_def)

subsection \<open>Decoded samples\<close>

lemma sample_bounds:
  fixes w :: "16 word"
  shows "- 1 \<le> real_of_int (sint w) / 32768" and "real_of_int (sint w) / 32768 < 1"
proof -
  have "- 32768 \<le> sint w" using sint_ge[of w] by simp
  then have "- 32768 \<le> real_of_int (sint w)" by linarith
  then show "- 1 \<le> real_of_int (sint w) / 32768" by simp
  have "sint w < 32768" using sint_lt[of w] by simp
  then have "real_of_int (sint w) < 32768" by linarith
  then show "real_of_int (sint w) / 32768 < 1" by simp
qed

lemma decodeAudioData_range:
  assumes "decodeAudioData b rate n = Inr buf" "ch \<in> set (channelData buf)" "x \<in> set ch"
  shows "- 1 \<le> x \<and> x < 1"
proof -
  from assms(1) obtain ws where ws: "int16_view b = Inr ws"
    by (auto simp: decodeAudioData_def split: sum.splits)
  with assms(1) have cd: "channelData buf =
      map (\<lambda>channel. map (\<lambda>i. real_of_int (sint (ws ! (i * n + channel))) / 32768)
            [0..<length ws div n]) [0..<n]"
    by (auto simp: decodeAudioData_def Let_def split: if_splits)
  from assms(2,3) obtain w :: "16 word" where "x = real_of_int (sint w) / 32768"
    unfolding cd by auto
  then show ?thesis using sample_bounds[of w] by simp
qed


text \<open>
  C10: for every byte array \<open>b\<close>, \<open>decode (encode b)\<close> returns \<open>b\<close>, so the bytes of a
  playback chunk survive the base64 round trip, and every sample that \<open>decodeAudioData\<close>
  computes from 16-bit values lies in \<open>[-1, 1)\<close>.
\<close>

theorem C10_base64_round_trip:
  "decode (encode b) = Inr b \<and>
   (\<forall>buf. decodeAudioData b rate numChannels = Inr buf \<longrightarrow>
      (\<forall>ch \<in> set (channelData buf). \<forall>x \<in> set ch. - 1 \<le> x \<and> x < 1))"
  using decode_encode decodeAudioData_range by blast

theorem C10_base64_round_trip_witness:
  "decode (encode [0, 128]) = Inr [0, 128] \<and>
   decodeAudioData [0, 128] 24000 1
     = Inr \<lparr>numberOfChannels = 1, frames = 1, sampleRate = 24000, channelData = [[- 1]]\<rparr> \<and>
   - 1 \<le> (- 1 :: real) \<and> (- 1 :: real) < 1"
  using C10_base64_round_trip [of "[0, 128]" 24000 1]
  by (simp add: decodeAudioData_def word_cat_eq)

subsection \<open>Teardown\<close>

text \<open>Each step of \<open>cleanup\<close> as one update of the state.\<close>

lemma clearSpeakingTimer_eq:
  "clearSpeakingTimer s =
     s\<lparr>pendingTimers := pendingTimers s -
          (case aiSpeakingTimerRef s of None \<Rightarrow> {} | Some t \<Rightarrow> if t \<noteq> 0 then {t} else {})\<rparr>"
  by (cases s) (simp add: clearSpeakingTimer_def clearTimeout_def split: option.splits)

lemma stopTracks_eq:
  "stopTracks s =
     s\<lparr>trackStops := trackStops s @ (case mediaStreamRef s of None \<Rightarrow> [] | Some tracks \<Rightarrow> tracks),
       mediaStreamRef := None\<rparr>"
  by (cases s) (simp add: stopTracks_def split: option.splits)

lemma disconnectProcessor_eq:
  "disconnectProcessor s =
     s\<lparr>disconnects := disconnects s @ (case scriptProcessorRef s of None \<Rightarrow> [] | Some node \<Rightarrow> [node]),
       scriptProcessorRef := None\<rparr>"
  by (cases s) (simp add: disconnectProcessor_def split: option.splits)

lemma closeInputContext_eq:
  "closeInputContext s =
     s\<lparr>contextCloses := contextCloses s @
          (case inputAudioContextRef s of
             None \<Rightarrow> [] | Some c \<Rightarrow> if state c \<noteq> Closed then [ctxId c] else []),
       inputAudioContextRef := map_option (\<lambda>c. c\<lparr>state := Closed\<rparr>) (inputAudioContextRef s)\<rparr>"
  by (cases s) (simp add: closeInputContext_def split: option.splits)

lemma closeOutputContext_eq:
  "closeOutputContext s =
     s\<lparr>contextCloses := contextCloses s @
          (case outputAudioContextRef s of
             None \<Rightarrow> [] | Some c \<Rightarrow> if state c \<noteq> Closed then [ctxId c] else []),
       outputAudioContextRef := map_option (\<lambda>c. c\<lparr>state := Closed\<rparr>) (outputAudioContextRef s)\<rparr>"
  by (cases s) (simp add: closeOutputContext_def split: option.splits)

lemma closeSession_eq:
  "closeSession s =
     s\<lparr>sessionCloses := sessionCloses s @ (case sessionPromiseRef s of None \<Rightarrow> [] | Some p \<Rightarrow> [p]),
       sessionPromiseRef := None\<rparr>"
  by (cases s) (simp add: closeSession_def split: option.splits)

lemmas cleanup_steps =
  clearSpeakingTimer_eq stopTracks_eq disconnectProcessor_eq closeInputContext_eq
  closeOutputContext_eq closeSession_eq stopSources_def setAIStatus_def Let_def

lemma cleanup_timers:
  "pendingTimers (cleanup s) =
     pendingTimers s - (case aiSpeakingTimerRef s of None \<Rightarrow> {} | Some t \<Rightarrow> if t \<noteq> 0 then {t} else {})"
  by (simp add: cleanup_def cleanup_steps)

lemma cleanup_tracks:
  "trackStops (cleanup s) = trackStops s @ (case mediaStreamRef s of None \<Rightarrow> [] | Some tracks \<Rightarrow> tracks)"
  "mediaStreamRef (cleanup s) = None"
  by (simp_all add: cleanup_def cleanup_steps)

lemma cleanup_node:
  "disconnects (cleanup s) = disconnects s @ (case scriptProcessorRef s of None \<Rightarrow> [] | Some node \<Rightarrow> [node])"
  "scriptProcessorRef (cleanup s) = None"
  by (simp_all add: cleanup_def cleanup_steps)

lemma cleanup_contexts:
  "inputAudioContextRef (cleanup s) = map_option (\<lambda>c. c\<lparr>state := Closed\<rparr>) (inputAudioContextRef s)"
  "outputAudioContextRef (cleanup s) = map_option (\<lambda>c. c\<lparr>state := Closed\<rparr>) (outputAudioContextRef s)"
  "contextCloses (cleanup s) = contextCloses s
     @ (case inputAudioContextRef s of None \<Rightarrow> [] | Some c \<Rightarrow> if state c \<noteq> Closed then [ctxId c] else [])
     @ (case outputAudioContextRef s of None \<Rightarrow> [] | Some c \<Rightarrow> if state c \<noteq> Closed then [ctxId c] else [])"
  by (simp_all add: cleanup_def cleanup_steps)

lemma cleanup_session:
  "sessionCloses (cleanup s) = sessionCloses s @ (case sessionPromiseRef s of None \<Rightarrow> [] | Some p \<Rightarrow> [p])"
  "sessionPromiseRef (cleanup s) = None"
  by (simp_all add: cleanup_def cleanup_steps)

lemma cleanup_sources:
  "sourceStops (cleanup s) = sourceStops s @ sourcesRef s"
  "sourcesRef (cleanup s) = []"
  by (simp_all add: cleanup_def cleanup_steps)

lemma cleanup_status:
  "aiStatus (cleanup s) = Idle"
  "statusTrace (cleanup s) = statusTrace s @ [Idle]"
  by (simp_all add: cleanup_def cleanup_steps)

lemma cleanup_unchanged:
  "nextStartTimeRef (cleanup s) = nextStartTimeRef s"
  "aiSpeakingTimerRef (cleanup s) = aiSpeakingTimerRef s"
  "error (cleanup s) = error s"
  "transcription (cleanup s) = transcription s"
  "localStorage (cleanup s) = localStorage s"
  "sourceStarts (cleanup s) = sourceStarts s"
  "sent (cleanup s) = sent s"
  "nextId (cleanup s) = nextId s"
  "currentInputTranscriptionRef (cleanup s) = currentInputTranscriptionRef s"
  "currentOutputTranscriptionRef (cleanup s) = currentOutputTranscriptionRef s"
  by (simp_all add: cleanup_def cleanup_steps)

subsection \<open>Evaluation of the example inputs\<close>

lemma encode_silence: "encode [0, 0] = ''AAA=''"
  by (simp add: encode_def fromCharCode_def b64_char_def b64_alphabet_def)

lemma decode_silence: "decode ''AAA='' = Inr [0, 0]"
  using decode_encode[of "[0, 0]"] by (simp only: encode_silence)

lemma decodeAudioData_silence:
  "decodeAudioData [0, 0] 24000 (Suc 0)
     = Inr \<lparr>numberOfChannels = 1, frames = 1, sampleRate = 24000, channelData = [[0]]\<rparr>"
  by (simp add: decodeAudioData_def)

lemma decodeChunk_silence:
  "decodeChunk ''AAA=''
     = Inr \<lparr>numberOfChannels = 1, frames = 1, sampleRate = 24000, channelData = [[0]]\<rparr>"
  by (simp add: decodeChunk_def decode_silence decodeAudioData_silence)

lemmas handler_defs =
  handleControlButtonClick_def isSessionActive_def startConversation_def setError_def
  setTranscription_def persistEffect_def onopen_def settled_def onmessage_def playAudio_def
  appendTranscriptions_def handleText_def handleAudio_def beginSpeaking_def scheduleBuffer_def
  flushTurn_def duration_def onclose_def onerror_def cleanup_def cleanup_steps timerFired_def
  onended_def onInterrupted_def handleInterruptSpeech_def clearTimeout_def initial_def

lemmas example_simps =
  handler_defs audioData_def silence_def turnEnd_def heard_def said_def interruption_def
  garbledInterruption_def decodeChunk_silence

lemma speakingSession_eq:
  "speakingSession =
     \<lparr> aiStatus = Speaking, error = None, transcription = [],
       inputAudioContextRef = Some \<lparr>ctxId = 1, state = Suspended\<rparr>,
       outputAudioContextRef = Some \<lparr>ctxId = 2, state = Suspended\<rparr>,
       sessionPromiseRef = Some 3, mediaStreamRef = Some [1], scriptProcessorRef = Some 4,
       sourcesRef = [5], currentInputTranscriptionRef = [], currentOutputTranscriptionRef = [],
       nextStartTimeRef = 1 / 24000, aiSpeakingTimerRef = Some 6,
       statusTrace = [Connecting, Listening, Speaking], pendingTimers = {6}, nextId = 7,
       localStorage = Map.empty, trackStops = [], disconnects = [], contextCloses = [],
       sessionCloses = [], sourceStarts =
         [\<lparr>source = 5, startAt = 0, bufferDuration = 1 / 24000, clock = 0\<rparr>],
       sourceStops = [], sent = [] \<rparr>"
  by (simp add: speakingSession_def example_simps)

lemma listeningSession_eq:
  "listeningSession =
     \<lparr> aiStatus = Listening, error = None, transcription = [],
       inputAudioContextRef = Some \<lparr>ctxId = 1, state = Suspended\<rparr>,
       outputAudioContextRef = Some \<lparr>ctxId = 2, state = Suspended\<rparr>,
       sessionPromiseRef = Some 3, mediaStreamRef = Some [1], scriptProcessorRef = Some 4,
       sourcesRef = [], currentInputTranscriptionRef = [], currentOutputTranscriptionRef = [],
       nextStartTimeRef = 0, aiSpeakingTimerRef = None,
       statusTrace = [Connecting, Listening], pendingTimers = {}, nextId = 5,
       localStorage = Map.empty, trackStops = [], disconnects = [], contextCloses = [],
       sessionCloses = [], sourceStarts = [], sourceStops = [], sent = [] \<rparr>"
  by (simp add: listeningSession_def example_simps)

subsection \<open>The handlers of the session as updates of the state\<close>

lemma flushTurn_eq:
  "flushTurn s =
     (let newHistory = transcription s
        @ (if trim (currentInputTranscriptionRef s) \<noteq> []
           then [\<lparr>author = You, text' = trim (currentInputTranscriptionRef s)\<rparr>] else [])
        @ (if trim (currentOutputTranscriptionRef s) \<noteq> []
           then [\<lparr>author = AI, text' = trim (currentOutputTranscriptionRef s)\<rparr>] else [])
      in s\<lparr>transcription := newHistory,
           localStorage := (if newHistory \<noteq> []
                            then (localStorage s)(LIVE_CONVO_STORAGE_KEY \<mapsto> Json newHistory)
                            else localStorage s),
           currentInputTranscriptionRef := [],
           currentOutputTranscriptionRef := [],
           aiStatus := Thinking,
           statusTrace := statusTrace s @ [Thinking]\<rparr>)"
  by (simp add: flushTurn_def setTranscription_def persistEffect_def setAIStatus_def Let_def)

lemma beginSpeaking_eq:
  "beginSpeaking now s =
     s\<lparr>aiStatus := Speaking,
       statusTrace := statusTrace s @ [Speaking],
       pendingTimers := pendingTimers s -
          (case aiSpeakingTimerRef s of None \<Rightarrow> {} | Some t \<Rightarrow> if t \<noteq> 0 then {t} else {}),
       nextStartTimeRef := max (nextStartTimeRef s) now\<rparr>"
  by (simp add: beginSpeaking_def setAIStatus_def clearSpeakingTimer_eq Let_def)

lemma scheduleBuffer_eq:
  "0 \<le> nextStartTimeRef s \<Longrightarrow>
   scheduleBuffer now b s =
     Inr (s\<lparr>sourceStarts := sourceStarts s @
              [\<lparr>source = nextId s, startAt = nextStartTimeRef s,
                bufferDuration = duration b, clock = now\<rparr>],
            nextStartTimeRef := nextStartTimeRef s + duration b,
            sourcesRef := (if nextId s \<in> set (sourcesRef s) then sourcesRef s
                           else sourcesRef s @ [nextId s]),
            aiSpeakingTimerRef := Some (nextId s + 1),
            pendingTimers := insert (nextId s + 1) (pendingTimers s),
            nextId := nextId s + 2\<rparr>)"
  by (simp add: scheduleBuffer_def Let_def)

lemma scheduleBuffer_negative:
  "nextStartTimeRef s < 0 \<Longrightarrow> scheduleBuffer now b s = Inl (RangeError, s)"
  by (simp add: scheduleBuffer_def)

lemma onInterrupted_eq:
  "onInterrupted s =
     s\<lparr>pendingTimers := pendingTimers s -
          (case aiSpeakingTimerRef s of None \<Rightarrow> {} | Some t \<Rightarrow> if t \<noteq> 0 then {t} else {}),
       sourceStops := sourceStops s @ sourcesRef s,
       sourcesRef := [],
       nextStartTimeRef := 0,
       aiStatus := Listening,
       statusTrace := statusTrace s @ [Listening]\<rparr>"
  by (simp add: onInterrupted_def setAIStatus_def clearSpeakingTimer_eq stopSources_def Let_def)

lemma handleInterruptSpeech_eq:
  "handleInterruptSpeech s =
     s\<lparr>pendingTimers := pendingTimers s -
          (case aiSpeakingTimerRef s of None \<Rightarrow> {} | Some t \<Rightarrow> if t \<noteq> 0 then {t} else {}),
       aiSpeakingTimerRef := (case aiSpeakingTimerRef s of
                                None \<Rightarrow> None | Some t \<Rightarrow> if t \<noteq> 0 then None else Some t),
       sourceStops := sourceStops s @ sourcesRef s,
       sourcesRef := [],
       nextStartTimeRef := 0,
       aiStatus := Listening,
       statusTrace := statusTrace s @ [Listening]\<rparr>"
  by (cases s)
     (simp add: handleInterruptSpeech_def setAIStatus_def clearTimeout_def stopSources_def Let_def
        split: option.splits)

lemma startConversation_granted:
  "startConversation (Some stream) s =
     s\<lparr>aiStatus := Connecting,
       statusTrace := statusTrace s @ [Connecting],
       error := None,
       transcription := [],
       nextStartTimeRef := 0,
       mediaStreamRef := Some stream,
       inputAudioContextRef := Some \<lparr>ctxId = nextId s, state = Suspended\<rparr>,
       outputAudioContextRef := Some \<lparr>ctxId = nextId s + 1, state = Suspended\<rparr>,
       sessionPromiseRef := Some (nextId s + 2),
       nextId := nextId s + 3\<rparr>"
  by (simp add: startConversation_def setAIStatus_def setError_def setTranscription_def
        persistEffect_def Let_def)

lemma startConversation_denied:
  "startConversation None s =
     cleanup (s\<lparr>aiStatus := Error,
                statusTrace := statusTrace s @ [Connecting, Error],
                error := Some ''Could not access microphone. Please grant permission and try again.'',
                transcription := [],
                nextStartTimeRef := 0\<rparr>)"
  by (cases s)
     (simp add: startConversation_def setAIStatus_def setError_def setTranscription_def
        persistEffect_def Let_def)

lemma onerror_eq:
  "onerror s =
     cleanup (s\<lparr>error := Some ''A connection error occurred. Please try again.'',
                aiStatus := Error,
                statusTrace := statusTrace s @ [Error]\<rparr>)"
  by (cases s) (simp add: onerror_def setAIStatus_def setError_def Let_def)

lemma onaudioprocess_eq:
  "onaudioprocess inputData s =
     s\<lparr>sent := sent s @
          (case sessionPromiseRef s of
             None \<Rightarrow> []
           | Some session \<Rightarrow>
               [(session, \<lparr>data = encode (uint8_view (map (\<lambda>x. toInt16 (x * 32768)) inputData)),
                           mimeType = ''audio/pcm;rate=16000''\<rparr>)])\<rparr>"
  by (cases s) (simp add: onaudioprocess_def Let_def split: option.splits)

lemma cleanup_eq:
  "cleanup s =
     s\<lparr>pendingTimers := pendingTimers s -
          (case aiSpeakingTimerRef s of None \<Rightarrow> {} | Some t \<Rightarrow> if t \<noteq> 0 then {t} else {}),
       trackStops := trackStops s @ (case mediaStreamRef s of None \<Rightarrow> [] | Some tracks \<Rightarrow> tracks),
       mediaStreamRef := None,
       disconnects := disconnects s @ (case scriptProcessorRef s of None \<Rightarrow> [] | Some node \<Rightarrow> [node]),
       scriptProcessorRef := None,
       contextCloses := contextCloses s
         @ (case inputAudioContextRef s of
              None \<Rightarrow> [] | Some c \<Rightarrow> if state c \<noteq> Closed then [ctxId c] else [])
         @ (case outputAudioContextRef s of
              None \<Rightarrow> [] | Some c \<Rightarrow> if state c \<noteq> Closed then [ctxId c] else []),
       inputAudioContextRef := map_option (\<lambda>c. c\<lparr>state := Closed\<rparr>) (inputAudioContextRef s),
       outputAudioContextRef := map_option (\<lambda>c. c\<lparr>state := Closed\<rparr>) (outputAudioContextRef s),
       sessionCloses := sessionCloses s @ (case sessionPromiseRef s of None \<Rightarrow> [] | Some p \<Rightarrow> [p]),
       sessionPromiseRef := None,
       sourceStops := sourceStops s @ sourcesRef s,
       sourcesRef := [],
       aiStatus := Idle,
       statusTrace := statusTrace s @ [Idle]\<rparr>"
  by (simp add: cleanup_def cleanup_steps)

lemma appendTranscriptions_eq:
  "appendTranscriptions m s =
     s\<lparr>currentInputTranscriptionRef := currentInputTranscriptionRef s
          @ (case inputTranscription m of None \<Rightarrow> [] | Some t \<Rightarrow> js_text t),
       currentOutputTranscriptionRef := currentOutputTranscriptionRef s
          @ (case outputTranscription m of None \<Rightarrow> [] | Some t \<Rightarrow> js_text t)\<rparr>"
  by (cases s) (simp add: appendTranscriptions_def Let_def split: option.splits)

text \<open>The four ways in which the audio part of \<open>onmessage\<close> ends.\<close>

lemma handleAudio_cases:
  obtains
    (Skipped) "handleAudio now m s = Inr s"
  | (Malformed) e where "audioData m = Inl e" "handleAudio now m s = Inl (e, s)"
  | (Thrown) e a where "audioData m = Inr (Some a)" "a \<noteq> []"
      "handleAudio now m s = Inl (e, beginSpeaking now s)"
  | (Scheduled) a b where
      "audioData m = Inr (Some a)" "a \<noteq> []" "decodeChunk a = Inr b"
      "0 \<le> max (nextStartTimeRef s) now"
      "handleAudio now m s =
         Inr (s\<lparr>aiStatus := Speaking,
                statusTrace := statusTrace s @ [Speaking],
                sourceStarts := sourceStarts s @
                  [\<lparr>source = nextId s, startAt = max (nextStartTimeRef s) now,
                    bufferDuration = duration b, clock = now\<rparr>],
                nextStartTimeRef := max (nextStartTimeRef s) now + duration b,
                sourcesRef := (if nextId s \<in> set (sourcesRef s) then sourcesRef s
                               else sourcesRef s @ [nextId s]),
                aiSpeakingTimerRef := Some (nextId s + 1),
                pendingTimers := insert (nextId s + 1)
                  (pendingTimers s -
                     (case aiSpeakingTimerRef s of
                        None \<Rightarrow> {} | Some t \<Rightarrow> if t \<noteq> 0 then {t} else {})),
                nextId := nextId s + 2\<rparr>)"
proof (cases "audioData m")
  case (Inl e)
  then have "handleAudio now m s = Inl (e, s)" by (simp add: handleAudio_def)
  with Inl show ?thesis by (rule Malformed)
next
  case found: (Inr found)
  show ?thesis
  proof (cases found)
  case None
  with found have "handleAudio now m s = Inr s" by (simp add: handleAudio_def)
  then show ?thesis by (rule Skipped)
next
  case (Some a)
  note Some = found[unfolded Some]
  show ?thesis
  proof (cases "a \<noteq> [] \<and> outputAudioContextRef s \<noteq> None")
    case False
    with Some have "handleAudio now m s = Inr s" by (auto simp: handleAudio_def)
    then show ?thesis by (rule Skipped)
  next
    case True
    then have ne: "a \<noteq> []" by simp
    from True Some have h: "handleAudio now m s = playAudio now a s"
      by (simp add: handleAudio_def)
    show ?thesis
    proof (cases "decodeChunk a")
      case (Inl e)
      then have th: "handleAudio now m s = Inl (e, beginSpeaking now s)"
        by (simp add: h playAudio_def)
      show ?thesis by (rule Thrown[OF Some ne th])
    next
      case (Inr b)
      show ?thesis
      proof (cases "0 \<le> max (nextStartTimeRef s) now")
        case False
        then have "nextStartTimeRef (beginSpeaking now s) < 0"
          by (auto simp add: beginSpeaking_eq max_def split: if_splits)
        then have th: "handleAudio now m s = Inl (RangeError, beginSpeaking now s)"
          by (simp add: h playAudio_def Inr scheduleBuffer_negative)
        show ?thesis by (rule Thrown[OF Some ne th])
      next
        case pos: True
        then have nn: "0 \<le> nextStartTimeRef (beginSpeaking now s)"
          by (simp add: beginSpeaking_eq)
        have "handleAudio now m s = scheduleBuffer now b (beginSpeaking now s)"
          by (simp add: h playAudio_def Inr)
        also have "\<dots> = Inr (s\<lparr>aiStatus := Speaking,
                statusTrace := statusTrace s @ [Speaking],
                sourceStarts := sourceStarts s @
                  [\<lparr>source = nextId s, startAt = max (nextStartTimeRef s) now,
                    bufferDuration = duration b, clock = now\<rparr>],
                nextStartTimeRef := max (nextStartTimeRef s) now + duration b,
                sourcesRef := (if nextId s \<in> set (sourcesRef s) then sourcesRef s
                               else sourcesRef s @ [nextId s]),
                aiSpeakingTimerRef := Some (nextId s + 1),
                pendingTimers := insert (nextId s + 1)
                  (pendingTimers s -
                     (case aiSpeakingTimerRef s of
                        None \<Rightarrow> {} | Some t \<Rightarrow> if t \<noteq> 0 then {t} else {})),
                nextId := nextId s + 2\<rparr>)"
          unfolding scheduleBuffer_eq[OF nn] by (cases s) (simp add: beginSpeaking_eq)
        finally show ?thesis by (rule Scheduled[OF Some ne Inr pos])
      qed
    qed
  qed
  qed
qed

text \<open>What the audio part and the interruption part of \<open>onmessage\<close> leave alone.\<close>

lemma handleAudio_frame:
  "transcription (settled (handleAudio now m s)) = transcription s"
  "localStorage (settled (handleAudio now m s)) = localStorage s"
  "currentInputTranscriptionRef (settled (handleAudio now m s)) = currentInputTranscriptionRef s"
  "currentOutputTranscriptionRef (settled (handleAudio now m s)) = currentOutputTranscriptionRef s"
  "sourceStops (settled (handleAudio now m s)) = sourceStops s"
  "sent (settled (handleAudio now m s)) = sent s"
  by (cases rule: handleAudio_cases[of now m s]; simp add: settled_def beginSpeaking_eq)+

lemma onmessage_frame:
  "transcription (settled (onmessage now m s)) = transcription (handleText m s)"
  "localStorage (settled (onmessage now m s)) = localStorage (handleText m s)"
  "currentInputTranscriptionRef (settled (onmessage now m s))
     = currentInputTranscriptionRef (handleText m s)"
  "currentOutputTranscriptionRef (settled (onmessage now m s))
     = currentOutputTranscriptionRef (handleText m s)"
  "sent (settled (onmessage now m s)) = sent (handleText m s)"
  unfolding onmessage_def Let_def
  by (cases rule: handleAudio_cases[of now m "handleText m s"];
      simp add: settled_def beginSpeaking_eq onInterrupted_eq)+

lemma handleText_eq:
  "handleText m s =
     (if turnComplete m then flushTurn (appendTranscriptions m s) else appendTranscriptions m s)"
  by (simp add: handleText_def Let_def)

subsection \<open>Claims about the transcript\<close>

text \<open>What \<open>trim\<close> does, stated without it.\<close>

lemma trim_whitespace_only:
  assumes "\<forall>c \<in> set t. js_whitespace c"
  shows "trim t = []"
proof -
  have d: "dropWhile js_whitespace t = []" using assms by (induction t) simp_all
  show ?thesis unfolding trim_def d by simp
qed

lemma trim_core:
  assumes lead: "\<forall>c \<in> set lead. js_whitespace c"
    and trail: "\<forall>c \<in> set trail. js_whitespace c"
    and core: "core \<noteq> []" "\<not> js_whitespace (hd core)" "\<not> js_whitespace (last core)"
  shows "trim (lead @ core @ trail) = core"
proof -
  from core obtain x xs where front: "core = x # xs" "\<not> js_whitespace x"
    by (cases core) auto
  from core obtain y ys where rear: "rev core = y # ys" "\<not> js_whitespace y"
    by (cases "rev core") (auto simp add: hd_rev)
  have "dropWhile js_whitespace (lead @ core @ trail) = dropWhile js_whitespace (core @ trail)"
    by (rule dropWhile_append2) (use lead in auto)
  also have "\<dots> = core @ trail" using front by simp
  finally have one: "dropWhile js_whitespace (lead @ core @ trail) = core @ trail" .
  have "dropWhile js_whitespace (rev (core @ trail))
      = dropWhile js_whitespace (rev trail @ rev core)"
    by simp
  also have "\<dots> = dropWhile js_whitespace (rev core)"
    by (rule dropWhile_append2) (use trail in auto)
  also have "\<dots> = rev core" using rear by simp
  finally show ?thesis by (simp add: trim_def one)
qed

lemma js_whitespace_units:
  "js_whitespace c \<longleftrightarrow>
     c \<in> {9, 10, 11, 12, 13, 32, 160, 5760, 8192, 8193, 8194, 8195, 8196, 8197, 8198, 8199,
          8200, 8201, 8202, 8232, 8233, 8239, 8287, 12288, 65279}"
proof -
  have u: "c = k \<longleftrightarrow> unat c = unat k" for k :: "16 word"
    by (rule word_unat_eq_iff)
  have r: "8192 \<le> unat c \<and> unat c \<le> 8202 \<longleftrightarrow>
      unat c \<in> {8192, 8193, 8194, 8195, 8196, 8197, 8198, 8199, 8200, 8201, 8202}"
    by (simp only: insert_iff empty_iff) arith
  show ?thesis
    unfolding js_whitespace_def r by (simp add: u) blast
qed

text \<open>
  C5. On a message with the turn-complete flag, whatever else it carries, the two buffers
  (with the pieces of text of this message appended) are trimmed; the history gains an entry of
  the user when the trimmed input is not empty, then an entry of the AI when the trimmed output
  is not empty, and nothing else; both buffers end empty; no entry recorded has an empty text.
  Trimming removes the white space at both ends and nothing else: a text that begins and ends
  with a code unit that is not white space, between two runs of white space, is trimmed to
  that text, and a text of white space only to the empty text, so that nothing is recorded
  when both buffers hold white space only. White space is the code units 9 to 13, 32, 160,
  5760, 8192 to 8202, 8232, 8233, 8239, 8287, 12288 and 65279.
  From empty buffers, the pieces \<open>I enjoy\<close> and \<open> coding\<close> followed by a turn-complete
  message without text add exactly the one entry of the user with \<open>I enjoy coding\<close>; so do
  these pieces between white space, together with a piece of the model's speech that is white
  space only.
\<close>

theorem C5_turn_complete_flushes:
  assumes "turnComplete m"
  shows
    "transcription (settled (onmessage now m s))
       = transcription s
         @ (if trim (currentInputTranscriptionRef (appendTranscriptions m s)) \<noteq> []
            then [\<lparr>author = You,
                   text' = trim (currentInputTranscriptionRef (appendTranscriptions m s))\<rparr>]
            else [])
         @ (if trim (currentOutputTranscriptionRef (appendTranscriptions m s)) \<noteq> []
            then [\<lparr>author = AI,
                   text' = trim (currentOutputTranscriptionRef (appendTranscriptions m s))\<rparr>]
            else []) \<and>
     currentInputTranscriptionRef (settled (onmessage now m s)) = [] \<and>
     currentOutputTranscriptionRef (settled (onmessage now m s)) = [] \<and>
     (\<forall>e \<in> set (drop (length (transcription s)) (transcription (settled (onmessage now m s)))).
        text' e \<noteq> []) \<and>
     (\<forall>lead core trail.
        (\<forall>c \<in> set lead. js_whitespace c) \<and> (\<forall>c \<in> set trail. js_whitespace c) \<and>
        core \<noteq> [] \<and> \<not> js_whitespace (hd core) \<and> \<not> js_whitespace (last core) \<longrightarrow>
        trim (lead @ core @ trail) = core) \<and>
     (\<forall>t. (\<forall>c \<in> set t. js_whitespace c) \<longrightarrow> trim t = []) \<and>
     (\<forall>c. js_whitespace c \<longleftrightarrow>
        c \<in> {9, 10, 11, 12, 13, 32, 160, 5760, 8192, 8193, 8194, 8195, 8196, 8197, 8198, 8199,
             8200, 8201, 8202, 8232, 8233, 8239, 8287, 12288, 65279}) \<and>
     ((\<forall>c \<in> set (currentInputTranscriptionRef (appendTranscriptions m s)). js_whitespace c) \<and>
      (\<forall>c \<in> set (currentOutputTranscriptionRef (appendTranscriptions m s)). js_whitespace c) \<longrightarrow>
        transcription (settled (onmessage now m s)) = transcription s) \<and>
     (currentInputTranscriptionRef s = [] \<and> currentOutputTranscriptionRef s = [] \<longrightarrow>
        transcription
          (run [Message n1 (heard (codeUnits ''I enjoy'')),
                Message n2 (heard (codeUnits '' coding'')), Message n3 turnEnd] s)
        = transcription s @ [\<lparr>author = You, text' = codeUnits ''I enjoy coding''\<rparr>] \<and>
        transcription
          (run [Message n1 (heard ([32, 9] @ codeUnits ''I enjoy'')),
                Message n2 (said [32, 8232, 65279]),
                Message n3 (heard (codeUnits '' coding'' @ [10, 160, 12288])),
                Message n4 turnEnd] s)
        = transcription s @ [\<lparr>author = You, text' = codeUnits ''I enjoy coding''\<rparr>])"
proof -
  let ?s2 = "appendTranscriptions m s"
  have t: "transcription (settled (onmessage now m s))
       = transcription s
         @ (if trim (currentInputTranscriptionRef ?s2) \<noteq> []
            then [\<lparr>author = You, text' = trim (currentInputTranscriptionRef ?s2)\<rparr>] else [])
         @ (if trim (currentOutputTranscriptionRef ?s2) \<noteq> []
            then [\<lparr>author = AI, text' = trim (currentOutputTranscriptionRef ?s2)\<rparr>] else [])"
    using assms
    by (simp add: onmessage_frame handleText_eq flushTurn_eq Let_def appendTranscriptions_eq)
  have b: "currentInputTranscriptionRef (settled (onmessage now m s)) = []"
     "currentOutputTranscriptionRef (settled (onmessage now m s)) = []"
    using assms by (simp_all add: onmessage_frame handleText_eq flushTurn_eq Let_def)
  have e: "\<forall>e \<in> set (drop (length (transcription s)) (transcription (settled (onmessage now m s)))).
        text' e \<noteq> []"
    unfolding t by auto
  have core: "\<forall>lead core trail.
        (\<forall>c \<in> set lead. js_whitespace c) \<and> (\<forall>c \<in> set trail. js_whitespace c) \<and>
        core \<noteq> [] \<and> \<not> js_whitespace (hd core) \<and> \<not> js_whitespace (last core) \<longrightarrow>
        trim (lead @ core @ trail) = core"
    using trim_core by blast
  have blank: "\<forall>t. (\<forall>c \<in> set t. js_whitespace c) \<longrightarrow> trim t = []"
    using trim_whitespace_only by blast
  have units: "\<forall>c. js_whitespace c \<longleftrightarrow>
        c \<in> {9, 10, 11, 12, 13, 32, 160, 5760, 8192, 8193, 8194, 8195, 8196, 8197, 8198, 8199,
             8200, 8201, 8202, 8232, 8233, 8239, 8287, 12288, 65279}"
    using js_whitespace_units by blast
  have none: "transcription (settled (onmessage now m s)) = transcription s"
    if "\<forall>c \<in> set (currentInputTranscriptionRef ?s2). js_whitespace c"
       "\<forall>c \<in> set (currentOutputTranscriptionRef ?s2). js_whitespace c"
    unfolding t using trim_whitespace_only[OF that(1)] trim_whitespace_only[OF that(2)]
    by simp
  have x: "transcription
          (run [Message n1 (heard (codeUnits ''I enjoy'')),
                Message n2 (heard (codeUnits '' coding'')), Message n3 turnEnd] s)
        = transcription s @ [\<lparr>author = You, text' = codeUnits ''I enjoy coding''\<rparr>]"
    if "currentInputTranscriptionRef s = []" "currentOutputTranscriptionRef s = []"
    using that
    by (simp add: onmessage_frame handleText_eq flushTurn_eq Let_def appendTranscriptions_eq
          heard_def turnEnd_def js_text_def trim_def js_whitespace_def codeUnits_def)
  have y: "transcription
          (run [Message n1 (heard ([32, 9] @ codeUnits ''I enjoy'')),
                Message n2 (said [32, 8232, 65279]),
                Message n3 (heard (codeUnits '' coding'' @ [10, 160, 12288])),
                Message n4 turnEnd] s)
        = transcription s @ [\<lparr>author = You, text' = codeUnits ''I enjoy coding''\<rparr>]"
    if "currentInputTranscriptionRef s = []" "currentOutputTranscriptionRef s = []"
    using that
    by (simp add: onmessage_frame handleText_eq flushTurn_eq Let_def appendTranscriptions_eq
          heard_def said_def turnEnd_def js_text_def trim_def js_whitespace_def codeUnits_def)
  show ?thesis
    using t b e core blank units none x y by (intro conjI impI) (blast | assumption)+
qed

theorem C5_turn_complete_flushes_witness:
  "turnComplete turnEnd \<and>
   currentInputTranscriptionRef (initial Map.empty) = [] \<and>
   currentOutputTranscriptionRef (initial Map.empty) = [] \<and>
   transcription
     (run [Message 0 (heard (codeUnits ''I enjoy'')), Message 0 (heard (codeUnits '' coding'')),
           Message 0 turnEnd]
        (initial Map.empty))
     = [\<lparr>author = You, text' = codeUnits ''I enjoy coding''\<rparr>] \<and>
   transcription
     (run [Message 0 (heard ([32, 9] @ codeUnits ''I enjoy'')),
           Message 0 (said [32, 8232, 65279]),
           Message 0 (heard (codeUnits '' coding'' @ [10, 160, 12288])),
           Message 0 turnEnd]
        (initial Map.empty))
     = [\<lparr>author = You, text' = codeUnits ''I enjoy coding''\<rparr>] \<and>
   trim ([32, 9] @ codeUnits ''I enjoy coding'' @ [10, 160, 12288]) = codeUnits ''I enjoy coding'' \<and>
   trim [32, 8232, 65279] = []"
proof -
  note c5 = C5_turn_complete_flushes [of turnEnd 0 "initial Map.empty" 0 0 0 0]
  have flag: "turnComplete turnEnd" by (simp add: turnEnd_def)
  have empty: "currentInputTranscriptionRef (initial Map.empty) = [] \<and>
      currentOutputTranscriptionRef (initial Map.empty) = []"
    by (simp add: initial_def)
  have ends: "(\<forall>c \<in> set [32, 9 :: 16 word]. js_whitespace c) \<and>
      (\<forall>c \<in> set [10, 160, 12288 :: 16 word]. js_whitespace c) \<and>
      codeUnits ''I enjoy coding'' \<noteq> [] \<and>
      \<not> js_whitespace (hd (codeUnits ''I enjoy coding'')) \<and>
      \<not> js_whitespace (last (codeUnits ''I enjoy coding''))"
    by (simp add: js_whitespace_def codeUnits_def)
  have blank: "\<forall>c \<in> set [32, 8232, 65279 :: 16 word]. js_whitespace c"
    by (simp add: js_whitespace_def)
  from c5[OF flag] empty have runs: "transcription
     (run [Message 0 (heard (codeUnits ''I enjoy'')), Message 0 (heard (codeUnits '' coding'')),
           Message 0 turnEnd]
        (initial Map.empty))
     = transcription (initial Map.empty) @ [\<lparr>author = You, text' = codeUnits ''I enjoy coding''\<rparr>] \<and>
   transcription
     (run [Message 0 (heard ([32, 9] @ codeUnits ''I enjoy'')),
           Message 0 (said [32, 8232, 65279]),
           Message 0 (heard (codeUnits '' coding'' @ [10, 160, 12288])),
           Message 0 turnEnd]
        (initial Map.empty))
     = transcription (initial Map.empty) @ [\<lparr>author = You, text' = codeUnits ''I enjoy coding''\<rparr>]"
    by blast
  from c5[OF flag] ends
  have one: "trim ([32, 9] @ codeUnits ''I enjoy coding'' @ [10, 160, 12288])
      = codeUnits ''I enjoy coding''"
    by blast
  from c5[OF flag] blank have two: "trim [32, 8232, 65279] = []" by blast
  have "transcription (initial Map.empty) = []" by (simp add: initial_def)
  with runs have "transcription
     (run [Message 0 (heard (codeUnits ''I enjoy'')), Message 0 (heard (codeUnits '' coding'')),
           Message 0 turnEnd]
        (initial Map.empty))
     = [\<lparr>author = You, text' = codeUnits ''I enjoy coding''\<rparr>] \<and>
   transcription
     (run [Message 0 (heard ([32, 9] @ codeUnits ''I enjoy'')),
           Message 0 (said [32, 8232, 65279]),
           Message 0 (heard (codeUnits '' coding'' @ [10, 160, 12288])),
           Message 0 turnEnd]
        (initial Map.empty))
     = [\<lparr>author = You, text' = codeUnits ''I enjoy coding''\<rparr>]"
    by simp
  with flag empty one two show ?thesis by blast
qed

subsection \<open>Interruption\<close>







subsection \<open>Capture\<close>

lemma int16_bytes: "(word_cat (ucast (drop_bit 8 w) :: 8 word) (ucast w :: 8 word) :: 16 word) = w"
  by (rule bit_word_eqI) (auto simp add: bit_simps)

lemma int16_view_uint8_view: "int16_view (uint8_view ws) = Inr ws"
  by (induction ws) (simp_all add: int16_bytes)

lemma sint_toInt16: "sint (toInt16 y) = (js_trunc y + 32768) mod 65536 - 32768"
  using int_word_sint[of "js_trunc y", where 'a = 16] by (simp add: toInt16_def)

lemma js_trunc_range:
  assumes "- 1 \<le> x" "x < 1"
  shows "- 32768 \<le> js_trunc (x * 32768)" "js_trunc (x * 32768) < 32768"
proof -
  have lo: "- 32768 \<le> x * 32768" and hi: "x * 32768 < 32768" using assms by simp_all
  show "- 32768 \<le> js_trunc (x * 32768)"
  proof (cases "0 \<le> x * 32768")
    case True
    then have "0 \<le> \<lfloor>x * 32768\<rfloor>" by simp
    then show ?thesis using True by (simp add: js_trunc_def del: zero_le_floor)
  next
    case False
    have "real_of_int (- 32768) \<le> x * 32768" using lo by simp
    then have "- 32768 \<le> \<lceil>x * 32768\<rceil>" by linarith
    then show ?thesis using False by (simp add: js_trunc_def)
  qed
  show "js_trunc (x * 32768) < 32768"
  proof (cases "0 \<le> x * 32768")
    case True
    have "x * 32768 < real_of_int 32768" using hi by simp
    then have "\<lfloor>x * 32768\<rfloor> < 32768" by (simp only: floor_less_iff)
    then show ?thesis using True by (simp add: js_trunc_def)
  next
    case False
    then have "x * 32768 \<le> real_of_int 0" by simp
    then have "\<lceil>x * 32768\<rceil> \<le> 0" by (simp only: ceiling_le_iff)
    then show ?thesis using False by (simp add: js_trunc_def)
  qed
qed

lemma toInt16_in_range:
  assumes "- 1 \<le> x" "x < 1"
  shows "sint (toInt16 (x * 32768)) = js_trunc (x * 32768)"
proof -
  have "0 \<le> js_trunc (x * 32768) + 32768" "js_trunc (x * 32768) + 32768 < 65536"
    using js_trunc_range[OF assms] by simp_all
  then have "(js_trunc (x * 32768) + 32768) mod 65536 = js_trunc (x * 32768) + 32768"
    by simp
  then show ?thesis by (simp add: sint_toInt16)
qed

lemma toInt16_full_scale: "sint (toInt16 (1 * 32768)) = - 32768"
  by (simp add: sint_toInt16 js_trunc_def)

text \<open>
  In every state that the component reaches, an input context that is not closed comes with a
  session: \<open>startConversation\<close> sets both, and \<open>cleanup\<close> closes the one and clears the
  other.
\<close>

lemma step_session_held:
  assumes "\<forall>c. inputAudioContextRef s = Some c \<and> state c \<noteq> Closed \<longrightarrow> sessionPromiseRef s \<noteq> None"
  shows "\<forall>c. inputAudioContextRef (step e s) = Some c \<and> state c \<noteq> Closed
           \<longrightarrow> sessionPromiseRef (step e s) \<noteq> None"
proof (cases e)
  case (Click userMedia)
  show ?thesis
  proof (cases userMedia)
    case None
    with assms show ?thesis
      by (auto simp add: Click handleControlButtonClick_def handleInterruptSpeech_eq cleanup_eq
            startConversation_denied)
  next
    case (Some stream)
    with assms show ?thesis
      by (auto simp add: Click handleControlButtonClick_def handleInterruptSpeech_eq cleanup_eq
            startConversation_granted)
  qed
next
  case Open
  with assms show ?thesis
    by (auto simp add: onopen_def settled_def setAIStatus_def Let_def split: option.splits)
next
  case (Message now m)
  let ?t = "handleText m s"
  have t: "sessionPromiseRef ?t = sessionPromiseRef s"
      "inputAudioContextRef ?t = inputAudioContextRef s"
    by (simp_all add: handleText_eq flushTurn_eq appendTranscriptions_eq Let_def)
  have "sessionPromiseRef (step e s) = sessionPromiseRef s \<and>
      inputAudioContextRef (step e s) = inputAudioContextRef s"
    by (cases rule: handleAudio_cases[of now m ?t])
       (simp_all add: Message onmessage_def Let_def settled_def beginSpeaking_eq onInterrupted_eq t)
  with assms show ?thesis by simp
next
  case (AudioProcess inputData)
  with assms show ?thesis by (simp add: onaudioprocess_eq)
next
  case (TimerFired t)
  with assms show ?thesis by (simp add: timerFired_def setAIStatus_def)
next
  case (Ended src)
  with assms show ?thesis by (simp add: onended_def)
next
  case ErrorEvent
  with assms show ?thesis by (auto simp add: onerror_eq cleanup_eq)
next
  case CloseEvent
  with assms show ?thesis by (auto simp add: onclose_def cleanup_eq)
qed

lemma run_session_held:
  assumes "\<forall>c. inputAudioContextRef s = Some c \<and> state c \<noteq> Closed \<longrightarrow> sessionPromiseRef s \<noteq> None"
  shows "\<forall>c. inputAudioContextRef (run es s) = Some c \<and> state c \<noteq> Closed
           \<longrightarrow> sessionPromiseRef (run es s) \<noteq> None"
  using assms
proof (induction es arbitrary: s)
  case Nil
  then show ?case by simp
next
  case (Cons e es)
  from Cons.IH[OF step_session_held[OF Cons.prems]] show ?case by simp
qed

lemma capturing_session:
  assumes "capturing (run es (initial store))"
  shows "\<exists>session. sessionPromiseRef (run es (initial store)) = Some session"
proof -
  have "\<forall>c. inputAudioContextRef (initial store) = Some c \<and> state c \<noteq> Closed
          \<longrightarrow> sessionPromiseRef (initial store) \<noteq> None"
    by (simp add: initial_def)
  from run_session_held[OF this, of es] assms show ?thesis
    by (auto simp add: capturing_def split: option.splits)
qed

text \<open>The conversion of a sample, stated with the floor and the ceiling of the product.\<close>

lemma toInt16_wraps:
  "sint (toInt16 (x * 32768))
     = ((if 0 \<le> x then \<lfloor>x * 32768\<rfloor> else \<lceil>x * 32768\<rceil>) + 32768) mod 65536 - 32768"
  by (simp add: sint_toInt16 js_trunc_def)

lemma toInt16_floor:
  assumes "0 \<le> x" "x < 1"
  shows "sint (toInt16 (x * 32768)) = \<lfloor>x * 32768\<rfloor>"
proof -
  from assms have "- 1 \<le> x" by simp
  from toInt16_in_range[OF this assms(2)] assms(1) show ?thesis by (simp add: js_trunc_def)
qed

lemma toInt16_ceiling:
  assumes "- 1 \<le> x" "x \<le> 0"
  shows "sint (toInt16 (x * 32768)) = \<lceil>x * 32768\<rceil>"
proof (cases "x = 0")
  case True
  then show ?thesis by (simp add: sint_toInt16 js_trunc_def)
next
  case False
  with assms have neg: "x < 0" and "x < 1" by simp_all
  from toInt16_in_range[OF assms(1) this(2)] neg show ?thesis by (simp add: js_trunc_def)
qed

lemma toInt16_examples:
  "sint (toInt16 (- 1 / 65536 * 32768)) = 0"
  "sint (toInt16 (3 / 65536 * 32768)) = 1"
  "sint (toInt16 (- 3 / 65536 * 32768)) = - 1"
  "sint (toInt16 (- 1 * 32768)) = - 32768"
proof -
  have "\<lceil>- (1 / 2 :: real)\<rceil> = 0" by (simp add: ceiling_eq_iff)
  then show "sint (toInt16 (- 1 / 65536 * 32768)) = 0" by (simp add: sint_toInt16 js_trunc_def)
  show "sint (toInt16 (3 / 65536 * 32768)) = 1" by (simp add: sint_toInt16 js_trunc_def)
  show "sint (toInt16 (- 3 / 65536 * 32768)) = - 1" by (simp add: sint_toInt16 js_trunc_def)
  show "sint (toInt16 (- 1 * 32768)) = - 32768" by (simp add: sint_toInt16 js_trunc_def)
qed

lemma encode_frame_example:
  "encode (uint8_view (map (\<lambda>x. toInt16 (x * 32768)) [1 / 2, - 1])) = ''AEAAgA==''"
  by (simp add: toInt16_def js_trunc_def encode_def fromCharCode_def b64_char_def b64_alphabet_def)

text \<open>
  C6. A frame is delivered to \<open>onaudioprocess\<close> while the component is capturing, that is from
  \<open>onopen\<close> to \<open>cleanup\<close>, whatever the status, and so while the status is listening. In
  every state that a run of the component from its initial state reaches and in which it is
  capturing, the session is present and the frame adds exactly one message to those sent, for
  that session; this holds in any state whose session promise ref is set. The payload of the
  message is the base64 text of the 16-bit samples, low byte first, and decodes back to
  exactly these samples; its MIME type is \<open>audio/pcm;rate=16000\<close>. Each sample is the product
  with 32768 truncated towards zero, which is its floor when the sample is in \<open>[0, 1)\<close> and its
  ceiling when the sample is in \<open>[-1, 0]\<close>; there is no clamping, a product out of range wraps
  modulo \<open>2 ^ 16\<close> into the signed range, and so the sample 1 gives -32768. The products
  -0.5, 1.5 and -1.5 give 0, 1 and -1.
\<close>

theorem C6_capture_frame_message:
  "(capturing (run es (initial store)) \<longrightarrow>
      (\<exists>session. sessionPromiseRef (run es (initial store)) = Some session \<and>
         sent (step (AudioProcess inputData) (run es (initial store)))
           = sent (run es (initial store))
             @ [(session,
                 \<lparr>data = encode (uint8_view (map (\<lambda>x. toInt16 (x * 32768)) inputData)),
                  mimeType = ''audio/pcm;rate=16000''\<rparr>)])) \<and>
   (sessionPromiseRef s = Some session \<longrightarrow>
      sent (onaudioprocess inputData s)
        = sent s @ [(session,
                     \<lparr>data = encode (uint8_view (map (\<lambda>x. toInt16 (x * 32768)) inputData)),
                      mimeType = ''audio/pcm;rate=16000''\<rparr>)]) \<and>
   decode (encode (uint8_view (map (\<lambda>x. toInt16 (x * 32768)) inputData)))
     = Inr (uint8_view (map (\<lambda>x. toInt16 (x * 32768)) inputData)) \<and>
   int16_view (uint8_view (map (\<lambda>x. toInt16 (x * 32768)) inputData))
     = Inr (map (\<lambda>x. toInt16 (x * 32768)) inputData) \<and>
   (\<forall>x. 0 \<le> x \<and> x < 1 \<longrightarrow> sint (toInt16 (x * 32768)) = \<lfloor>x * 32768\<rfloor>) \<and>
   (\<forall>x. - 1 \<le> x \<and> x \<le> 0 \<longrightarrow> sint (toInt16 (x * 32768)) = \<lceil>x * 32768\<rceil>) \<and>
   (\<forall>x. sint (toInt16 (x * 32768))
        = ((if 0 \<le> x then \<lfloor>x * 32768\<rfloor> else \<lceil>x * 32768\<rceil>) + 32768) mod 65536 - 32768) \<and>
   sint (toInt16 (1 * 32768)) = - 32768 \<and>
   sint (toInt16 (- 1 * 32768)) = - 32768 \<and>
   sint (toInt16 (- 1 / 65536 * 32768)) = 0 \<and>
   sint (toInt16 (3 / 65536 * 32768)) = 1 \<and>
   sint (toInt16 (- 3 / 65536 * 32768)) = - 1"
proof -
  let ?blob = "\<lparr>data = encode (uint8_view (map (\<lambda>x. toInt16 (x * 32768)) inputData)),
                mimeType = ''audio/pcm;rate=16000''\<rparr>"
  have reached: "\<exists>session. sessionPromiseRef (run es (initial store)) = Some session \<and>
         sent (step (AudioProcess inputData) (run es (initial store)))
           = sent (run es (initial store)) @ [(session, ?blob)]"
    if "capturing (run es (initial store))"
  proof -
    from capturing_session[OF that] obtain session
      where "sessionPromiseRef (run es (initial store)) = Some session" ..
    then show ?thesis by (simp add: onaudioprocess_eq)
  qed
  have held: "sent (onaudioprocess inputData s) = sent s @ [(session, ?blob)]"
    if "sessionPromiseRef s = Some session"
    using that by (simp add: onaudioprocess_eq)
  have payload: "decode (encode (uint8_view (map (\<lambda>x. toInt16 (x * 32768)) inputData)))
       = Inr (uint8_view (map (\<lambda>x. toInt16 (x * 32768)) inputData))"
    "int16_view (uint8_view (map (\<lambda>x. toInt16 (x * 32768)) inputData))
       = Inr (map (\<lambda>x. toInt16 (x * 32768)) inputData)"
    by (rule decode_encode, rule int16_view_uint8_view)
  have samples: "\<forall>x. 0 \<le> x \<and> x < 1 \<longrightarrow> sint (toInt16 (x * 32768)) = \<lfloor>x * 32768\<rfloor>"
    "\<forall>x. - 1 \<le> x \<and> x \<le> 0 \<longrightarrow> sint (toInt16 (x * 32768)) = \<lceil>x * 32768\<rceil>"
    "\<forall>x. sint (toInt16 (x * 32768))
        = ((if 0 \<le> x then \<lfloor>x * 32768\<rfloor> else \<lceil>x * 32768\<rceil>) + 32768) mod 65536 - 32768"
    using toInt16_floor toInt16_ceiling toInt16_wraps by blast+
  show ?thesis
    using reached held payload samples toInt16_full_scale toInt16_examples
    by (intro conjI impI) (blast | assumption)+
qed

theorem C6_capture_frame_message_witness:
  "aiStatus (run [Click (Some [1]), Open] (initial Map.empty)) = Listening \<and>
   capturing (run [Click (Some [1]), Open] (initial Map.empty)) \<and>
   sessionPromiseRef (run [Click (Some [1]), Open] (initial Map.empty)) = Some 3 \<and>
   sent (run [Click (Some [1]), Open, AudioProcess [1 / 2, - 1]] (initial Map.empty))
     = [(3, \<lparr>data = ''AEAAgA=='', mimeType = ''audio/pcm;rate=16000''\<rparr>)] \<and>
   sent (onaudioprocess [1 / 2, - 1] speakingSession)
     = [(3, \<lparr>data = ''AEAAgA=='', mimeType = ''audio/pcm;rate=16000''\<rparr>)] \<and>
   (0 :: real) \<le> 12345 / 32768 / 10 \<and> (12345 / 32768 / 10 :: real) < 1 \<and>
   sint (toInt16 (12345 / 32768 / 10 * 32768)) = 1234 \<and>
   - 1 \<le> (- 12345 / 32768 / 10 :: real) \<and> (- 12345 / 32768 / 10 :: real) \<le> 0 \<and>
   sint (toInt16 (- 12345 / 32768 / 10 * 32768)) = - 1234"
proof -
  note c6 = C6_capture_frame_message
    [of "[Click (Some [1]), Open]" Map.empty "[1 / 2, - 1]" speakingSession 3]
  have here: "run [Click (Some [1]), Open] (initial Map.empty) = listeningSession"
    by (simp only: listeningSession_def)
  have state: "aiStatus listeningSession = Listening" "capturing listeningSession"
      "sessionPromiseRef listeningSession = Some 3" "sent listeningSession = []"
    by (simp_all add: listeningSession_eq capturing_def)
  have held: "sessionPromiseRef speakingSession = Some 3" "sent speakingSession = []"
    by (simp_all add: speakingSession_eq)
  have up: "(0 :: real) \<le> 12345 / 32768 / 10 \<and> (12345 / 32768 / 10 :: real) < 1" by simp
  have down: "- 1 \<le> (- 12345 / 32768 / 10 :: real) \<and> (- 12345 / 32768 / 10 :: real) \<le> 0"
    by simp
  from c6 state(2) have "\<exists>session. sessionPromiseRef listeningSession = Some session \<and>
         sent (step (AudioProcess [1 / 2, - 1]) listeningSession)
           = sent listeningSession
             @ [(session,
                 \<lparr>data = encode (uint8_view (map (\<lambda>x. toInt16 (x * 32768)) [1 / 2, - 1])),
                  mimeType = ''audio/pcm;rate=16000''\<rparr>)]"
    unfolding here by blast
  then have "\<exists>session. sessionPromiseRef listeningSession = Some session \<and>
         sent (step (AudioProcess [1 / 2, - 1]) listeningSession)
           = sent listeningSession
             @ [(session, \<lparr>data = ''AEAAgA=='', mimeType = ''audio/pcm;rate=16000''\<rparr>)]"
    unfolding encode_frame_example .
  with state(3,4) have one: "sent (step (AudioProcess [1 / 2, - 1]) listeningSession)
      = [(3, \<lparr>data = ''AEAAgA=='', mimeType = ''audio/pcm;rate=16000''\<rparr>)]"
    by (auto simp del: step.simps)
  from c6 held(1) have "sent (onaudioprocess [1 / 2, - 1] speakingSession)
      = sent speakingSession
        @ [(3, \<lparr>data = encode (uint8_view (map (\<lambda>x. toInt16 (x * 32768)) [1 / 2, - 1])),
                mimeType = ''audio/pcm;rate=16000''\<rparr>)]"
    by blast
  then have "sent (onaudioprocess [1 / 2, - 1] speakingSession)
      = sent speakingSession
        @ [(3, \<lparr>data = ''AEAAgA=='', mimeType = ''audio/pcm;rate=16000''\<rparr>)]"
    unfolding encode_frame_example .
  with held(2) have two: "sent (onaudioprocess [1 / 2, - 1] speakingSession)
      = [(3, \<lparr>data = ''AEAAgA=='', mimeType = ''audio/pcm;rate=16000''\<rparr>)]"
    by simp
  from c6 up have "sint (toInt16 (12345 / 32768 / 10 * 32768)) = \<lfloor>12345 / 32768 / 10 * 32768 :: real\<rfloor>"
    by blast
  then have three: "sint (toInt16 (12345 / 32768 / 10 * 32768)) = 1234" by simp
  from c6 down
  have "sint (toInt16 (- 12345 / 32768 / 10 * 32768)) = \<lceil>- 12345 / 32768 / 10 * 32768 :: real\<rceil>"
    by blast
  then have four: "sint (toInt16 (- 12345 / 32768 / 10 * 32768)) = - 1234" by simp
  have run: "run [Click (Some [1]), Open, AudioProcess [1 / 2, - 1]] (initial Map.empty)
      = step (AudioProcess [1 / 2, - 1]) listeningSession"
    unfolding here[symmetric] by simp
  from state one two three four up down show ?thesis
    unfolding here run by (simp del: step.simps)
qed

subsection \<open>The stored history\<close>

lemma step_history:
  "(transcription (step e s) = transcription s \<and> localStorage (step e s) = localStorage s) \<or>
   (transcription (step e s) = [] \<and> localStorage (step e s) = localStorage s) \<or>
   ((\<exists>new. transcription (step e s) = transcription s @ new) \<and>
    localStorage (step e s)
      = (if transcription (step e s) \<noteq> []
         then (localStorage s)(LIVE_CONVO_STORAGE_KEY \<mapsto> Json (transcription (step e s)))
         else localStorage s))"
proof (cases e)
  case (Click userMedia)
  show ?thesis
  proof (cases userMedia)
    case None
    then show ?thesis
      by (simp add: Click handleControlButtonClick_def handleInterruptSpeech_eq cleanup_eq
            startConversation_denied)
  next
    case (Some stream)
    then show ?thesis
      by (simp add: Click handleControlButtonClick_def handleInterruptSpeech_eq cleanup_eq
            startConversation_granted)
  qed
next
  case Open
  then show ?thesis
    by (simp add: onopen_def settled_def setAIStatus_def Let_def split: option.splits)
next
  case (Message now m)
  then show ?thesis
    by (simp add: onmessage_frame handleText_eq flushTurn_eq appendTranscriptions_eq Let_def)
next
  case (AudioProcess inputData)
  then show ?thesis by (simp add: onaudioprocess_eq)
next
  case (TimerFired t)
  then show ?thesis by (simp add: timerFired_def setAIStatus_def)
next
  case (Ended src)
  then show ?thesis by (simp add: onended_def)
next
  case ErrorEvent
  then show ?thesis by (simp add: onerror_eq cleanup_eq)
next
  case CloseEvent
  then show ?thesis by (simp add: onclose_def cleanup_eq)
qed

text \<open>
  C9. The history is stored under the one key \<open>careerCompassLiveConvoHistory\<close>, as the
  text of the list of entries. On mount a stored list becomes the transcript, and nothing
  changes when nothing is stored. Whenever a callback makes the transcript longer, the storage
  holds the new transcript afterwards; a callback either leaves the storage as it is or stores
  the transcript it ends with, which is then not empty. Setting the transcript to the empty
  list, as \<open>startConversation\<close> does, leaves the storage as it is.
\<close>

theorem C9_history_persistence:
  "LIVE_CONVO_STORAGE_KEY = ''careerCompassLiveConvoHistory'' \<and>
   (localStorage s LIVE_CONVO_STORAGE_KEY = Some (Json saved) \<longrightarrow>
      transcription (mountEffect s) = saved \<and> localStorage (mountEffect s) = localStorage s) \<and>
   (localStorage s LIVE_CONVO_STORAGE_KEY = None \<longrightarrow> mountEffect s = s) \<and>
   (length (transcription s) < length (transcription (step e s)) \<longrightarrow>
      localStorage (step e s)
        = (localStorage s)(LIVE_CONVO_STORAGE_KEY \<mapsto> Json (transcription (step e s)))) \<and>
   (localStorage (step e s) = localStorage s \<or>
    transcription (step e s) \<noteq> [] \<and>
    localStorage (step e s)
      = (localStorage s)(LIVE_CONVO_STORAGE_KEY \<mapsto> Json (transcription (step e s)))) \<and>
   localStorage (setTranscription [] s) = localStorage s \<and>
   localStorage (startConversation userMedia s) = localStorage s"
proof -
  have mount: "localStorage s LIVE_CONVO_STORAGE_KEY = Some (Json saved) \<longrightarrow>
      transcription (mountEffect s) = saved \<and> localStorage (mountEffect s) = localStorage s"
    by (auto simp add: mountEffect_def setTranscription_def persistEffect_def)
  have unset: "localStorage s LIVE_CONVO_STORAGE_KEY = None \<longrightarrow> mountEffect s = s"
    by (simp add: mountEffect_def)
  have grows: "length (transcription s) < length (transcription (step e s)) \<longrightarrow>
      localStorage (step e s)
        = (localStorage s)(LIVE_CONVO_STORAGE_KEY \<mapsto> Json (transcription (step e s)))"
    using step_history[of e s] by (auto split: if_splits)
  have only: "localStorage (step e s) = localStorage s \<or>
    transcription (step e s) \<noteq> [] \<and>
    localStorage (step e s)
      = (localStorage s)(LIVE_CONVO_STORAGE_KEY \<mapsto> Json (transcription (step e s)))"
    using step_history[of e s] by (auto split: if_splits)
  have reset: "localStorage (setTranscription [] s) = localStorage s"
    by (simp add: setTranscription_def persistEffect_def)
  have start: "localStorage (startConversation userMedia s) = localStorage s"
    by (cases userMedia) (simp_all add: startConversation_granted startConversation_denied cleanup_eq)
  have key: "LIVE_CONVO_STORAGE_KEY = ''careerCompassLiveConvoHistory''"
    by (simp add: LIVE_CONVO_STORAGE_KEY_def)
  show ?thesis
    using key mount unset grows only reset start by (intro conjI) assumption+
qed

theorem C9_history_persistence_witness:
  "localStorage (initial savedStore) LIVE_CONVO_STORAGE_KEY
     = Some (Json [\<lparr>author = AI, text' = codeUnits ''Hello''\<rparr>]) \<and>
   transcription (mountEffect (initial savedStore)) = [\<lparr>author = AI, text' = codeUnits ''Hello''\<rparr>] \<and>
   localStorage (initial Map.empty) LIVE_CONVO_STORAGE_KEY = None \<and>
   mountEffect (initial Map.empty) = initial Map.empty \<and>
   length (transcription (step (Message 0 (heard (codeUnits ''Hi''))) (initial savedStore)))
     < length (transcription
         (step (Message 0 turnEnd) (step (Message 0 (heard (codeUnits ''Hi''))) (initial savedStore)))) \<and>
   localStorage (step (Message 0 turnEnd) (step (Message 0 (heard (codeUnits ''Hi''))) (initial savedStore)))
     = [LIVE_CONVO_STORAGE_KEY \<mapsto> Json [\<lparr>author = You, text' = codeUnits ''Hi''\<rparr>]]"
proof -
  let ?s = "step (Message 0 (heard (codeUnits ''Hi''))) (initial savedStore)"
  let ?e = "Message 0 turnEnd"
  have stored: "localStorage (initial savedStore) LIVE_CONVO_STORAGE_KEY
     = Some (Json [\<lparr>author = AI, text' = codeUnits ''Hello''\<rparr>])"
    by (simp add: initial_def savedStore_def)
  have empty: "localStorage (initial Map.empty) LIVE_CONVO_STORAGE_KEY = None"
    by (simp add: initial_def)
  have before: "transcription ?s = []" and store: "localStorage ?s = savedStore"
    by (simp_all add: onmessage_frame handleText_eq appendTranscriptions_eq heard_def initial_def)
  have after: "transcription (step ?e ?s) = [\<lparr>author = You, text' = codeUnits ''Hi''\<rparr>]"
    by (simp add: onmessage_frame handleText_eq appendTranscriptions_eq flushTurn_eq heard_def
          turnEnd_def initial_def js_text_def trim_def js_whitespace_def codeUnits_def Let_def)
  have longer: "length (transcription ?s) < length (transcription (step ?e ?s))"
    by (simp only: before after) simp
  note c9 = C9_history_persistence
  have "transcription (mountEffect (initial savedStore)) = [\<lparr>author = AI, text' = codeUnits ''Hello''\<rparr>]"
    using c9[of "initial savedStore" "[\<lparr>author = AI, text' = codeUnits ''Hello''\<rparr>]"] stored by blast
  moreover have "mountEffect (initial Map.empty) = initial Map.empty"
    using c9[of "initial Map.empty"] empty by blast
  moreover have "localStorage (step ?e ?s)
      = (localStorage ?s)(LIVE_CONVO_STORAGE_KEY \<mapsto> Json (transcription (step ?e ?s)))"
    using c9[of ?s _ ?e] longer by blast
  then have "localStorage (step ?e ?s)
      = [LIVE_CONVO_STORAGE_KEY \<mapsto> Json [\<lparr>author = You, text' = codeUnits ''Hi''\<rparr>]]"
    by (simp only: after store) (simp add: savedStore_def)
  ultimately show ?thesis using stored empty longer by blast
qed

subsection \<open>The schedule of playback\<close>

lemma decodeChunk_duration: "decodeChunk a = Inr b \<Longrightarrow> 0 \<le> duration b"
  by (auto simp add: decodeChunk_def decodeAudioData_def duration_def Let_def
        split: sum.splits if_splits)

lemma playAudio_scheduled:
  assumes "playAudio now a s = Inr s'"
  shows "\<exists>b. decodeChunk a = Inr b \<and> 0 \<le> duration b \<and>
           sourceStarts s' = sourceStarts s @
             [\<lparr>source = nextId s, startAt = max (nextStartTimeRef s) now,
               bufferDuration = duration b, clock = now\<rparr>] \<and>
           nextStartTimeRef s' = max (nextStartTimeRef s) now + duration b"
proof (cases "decodeChunk a")
  case (Inl e)
  with assms show ?thesis by (simp add: playAudio_def)
next
  case (Inr b)
  with assms have sb: "scheduleBuffer now b (beginSpeaking now s) = Inr s'"
    by (simp add: playAudio_def)
  show ?thesis
  proof (cases "nextStartTimeRef (beginSpeaking now s) < 0")
    case True
    with sb show ?thesis by (simp add: scheduleBuffer_negative)
  next
    case False
    then have "0 \<le> nextStartTimeRef (beginSpeaking now s)" by simp
    from sb[unfolded scheduleBuffer_eq[OF this]]
    have "sourceStarts s' = sourceStarts s @
             [\<lparr>source = nextId s, startAt = max (nextStartTimeRef s) now,
               bufferDuration = duration b, clock = now\<rparr>] \<and>
           nextStartTimeRef s' = max (nextStartTimeRef s) now + duration b"
      by (auto simp add: beginSpeaking_eq)
    with Inr decodeChunk_duration[OF Inr] show ?thesis by blast
  qed
qed

lemma wellScheduled_mono: "c \<le> c' \<Longrightarrow> wellScheduled c' calls \<Longrightarrow> wellScheduled c calls"
  by (cases calls) auto

lemma wellScheduled_lower:
  "wellScheduled c calls \<Longrightarrow> x \<in> set calls \<Longrightarrow> c \<le> startAt x \<and> clock x \<le> startAt x"
proof (induction calls arbitrary: c)
  case Nil
  then show ?case by simp
next
  case (Cons y rest)
  show ?case
  proof (cases "x = y")
    case True
    with Cons.prems show ?thesis by simp
  next
    case False
    with Cons.prems have "x \<in> set rest" "wellScheduled (startAt y + bufferDuration y) rest"
      by simp_all
    from Cons.IH[OF this(2) this(1)] Cons.prems(1) show ?thesis by simp
  qed
qed

lemma wellScheduled_sorted: "wellScheduled c calls \<Longrightarrow> sorted (map startAt calls)"
proof (induction calls arbitrary: c)
  case Nil
  then show ?case by simp
next
  case (Cons y rest)
  then have rest: "wellScheduled (startAt y + bufferDuration y) rest" and d: "0 \<le> bufferDuration y"
    by simp_all
  have "startAt y \<le> startAt x" if "x \<in> set rest" for x
    using wellScheduled_lower[OF rest that] d by simp
  with Cons.IH[OF rest] show ?case by auto
qed

lemma wellScheduled_backToBack: "wellScheduled c calls \<Longrightarrow> backToBack calls"
proof (induction calls arbitrary: c rule: backToBack.induct)
  case 1
  then show ?case by simp
next
  case (2 x)
  then show ?case by simp
next
  case (3 x y rest)
  from "3.prems" have tail: "wellScheduled (startAt x + bufferDuration x) (y # rest)"
    and step: "startAt x + bufferDuration x \<le> startAt y"
    by simp_all
  from "3.IH"[OF tail] step show ?case by simp
qed

text \<open>What one event that is not an interruption does to the schedule.\<close>

lemma handleText_schedule:
  "sourceStarts (handleText m s) = sourceStarts s"
  "nextStartTimeRef (handleText m s) = nextStartTimeRef s"
  by (simp_all add: handleText_eq flushTurn_eq appendTranscriptions_eq Let_def)

lemma step_schedule:
  assumes "noInterruption e"
  shows "\<exists>new. sourceStarts (step e s) = sourceStarts s @ new \<and>
           wellScheduled (nextStartTimeRef s) new \<and>
           (case new of
              [] \<Rightarrow> nextStartTimeRef s \<le> nextStartTimeRef (step e s)
            | x # rest \<Rightarrow> rest = [] \<and> nextStartTimeRef (step e s) = startAt x + bufferDuration x)"
proof (cases e)
  case (Click userMedia)
  with assms show ?thesis by simp
next
  case Open
  have "sourceStarts (step e s) = sourceStarts s @ [] \<and> nextStartTimeRef s \<le> nextStartTimeRef (step e s)"
    by (simp add: Open onopen_def settled_def setAIStatus_def Let_def split: option.splits)
  then show ?thesis by (intro exI[of _ "[]"]) simp
next
  case (Message now m)
  with assms have ni: "\<not> interrupted m" by simp
  let ?t = "handleText m s"
  show ?thesis
  proof (cases rule: handleAudio_cases[of now m ?t])
    case Skipped
    then have "step e s = ?t" by (simp add: Message onmessage_def Let_def ni settled_def)
    then show ?thesis by (intro exI[of _ "[]"]) (simp add: handleText_schedule)
  next
    case (Malformed err)
    then have "step e s = ?t" by (simp add: Message onmessage_def Let_def settled_def)
    then show ?thesis by (intro exI[of _ "[]"]) (simp add: handleText_schedule)
  next
    case (Thrown err a)
    then have "step e s = beginSpeaking now ?t"
      by (simp add: Message onmessage_def Let_def settled_def)
    then show ?thesis
      by (intro exI[of _ "[]"]) (simp add: beginSpeaking_eq handleText_schedule)
  next
    case (Scheduled a b)
    let ?c = "\<lparr>source = nextId ?t, startAt = max (nextStartTimeRef s) now,
               bufferDuration = duration b, clock = now\<rparr>"
    from Scheduled(5) have "sourceStarts (step e s) = sourceStarts s @ [?c]"
        "nextStartTimeRef (step e s) = max (nextStartTimeRef s) now + duration b"
      by (simp_all add: Message onmessage_def Let_def ni settled_def handleText_schedule)
    moreover have "wellScheduled (nextStartTimeRef s) [?c]"
      using decodeChunk_duration[OF Scheduled(3)] by simp
    ultimately show ?thesis by (intro exI[of _ "[?c]"]) simp
  qed
next
  case (AudioProcess inputData)
  then show ?thesis by (intro exI[of _ "[]"]) (simp add: onaudioprocess_eq)
next
  case (TimerFired t)
  then show ?thesis by (intro exI[of _ "[]"]) (simp add: timerFired_def setAIStatus_def)
next
  case (Ended src)
  then show ?thesis by (intro exI[of _ "[]"]) (simp add: onended_def)
next
  case ErrorEvent
  then show ?thesis by (intro exI[of _ "[]"]) (simp add: onerror_eq cleanup_eq)
next
  case CloseEvent
  then show ?thesis by (intro exI[of _ "[]"]) (simp add: onclose_def cleanup_eq)
qed

lemma run_schedule:
  "\<forall>e \<in> set es. noInterruption e \<Longrightarrow>
   \<exists>new. sourceStarts (run es s) = sourceStarts s @ new \<and> wellScheduled (nextStartTimeRef s) new"
proof (induction es arbitrary: s)
  case Nil
  show ?case by simp
next
  case (Cons e es)
  then have e: "noInterruption e" and es: "\<forall>e \<in> set es. noInterruption e" by simp_all
  from step_schedule[OF e, of s] obtain first where
    first: "sourceStarts (step e s) = sourceStarts s @ first"
      "wellScheduled (nextStartTimeRef s) first"
      "case first of
         [] \<Rightarrow> nextStartTimeRef s \<le> nextStartTimeRef (step e s)
       | x # rest \<Rightarrow> rest = [] \<and> nextStartTimeRef (step e s) = startAt x + bufferDuration x"
    by blast
  from Cons.IH[OF es, of "step e s"] obtain later where
    later: "sourceStarts (run es (step e s)) = sourceStarts (step e s) @ later"
      "wellScheduled (nextStartTimeRef (step e s)) later"
    by blast
  have "wellScheduled (nextStartTimeRef s) (first @ later)"
  proof (cases first)
    case Nil
    with first(3) have "nextStartTimeRef s \<le> nextStartTimeRef (step e s)" by simp
    from wellScheduled_mono[OF this later(2)] Nil show ?thesis by simp
  next
    case (Cons x rest)
    with first(3) have "rest = []" "nextStartTimeRef (step e s) = startAt x + bufferDuration x"
      by simp_all
    with first(2) later(2) Cons show ?thesis by simp
  qed
  moreover have "sourceStarts (run (e # es) s) = sourceStarts s @ (first @ later)"
    by (simp add: later(1) first(1))
  ultimately show ?case by blast
qed

text \<open>
  C3. A chunk that \<open>playAudio\<close> schedules starts at the maximum of the cursor and the clock
  reading, and the cursor moves to that start plus the duration of the chunk, which is not
  negative. Over any sequence of events without an interruption (no click on the control
  button, no message with the interrupted flag), whatever else happens in between, the start
  calls added are in the order of their start times, each starts no earlier than the one
  before it ends, and each starts no earlier than the clock reading of its handler and than
  the cursor at the beginning of the sequence. Times are real numbers here, so the bound
  holds without an epsilon.
\<close>

theorem C3_playback_back_to_back:
  "(playAudio now audio s = Inr s' \<longrightarrow>
      (\<exists>b. decodeChunk audio = Inr b \<and> 0 \<le> duration b \<and>
           sourceStarts s' = sourceStarts s @
             [\<lparr>source = nextId s, startAt = max (nextStartTimeRef s) now,
               bufferDuration = duration b, clock = now\<rparr>] \<and>
           nextStartTimeRef s' = max (nextStartTimeRef s) now + duration b)) \<and>
   ((\<forall>e \<in> set es. noInterruption e) \<longrightarrow>
      (\<exists>new. sourceStarts (run es s) = sourceStarts s @ new \<and>
             sorted (map startAt new) \<and>
             backToBack new \<and>
             (\<forall>c \<in> set new. clock c \<le> startAt c \<and> nextStartTimeRef s \<le> startAt c)))"
proof -
  have seq: "\<exists>new. sourceStarts (run es s) = sourceStarts s @ new \<and>
             sorted (map startAt new) \<and>
             backToBack new \<and>
             (\<forall>c \<in> set new. clock c \<le> startAt c \<and> nextStartTimeRef s \<le> startAt c)"
    if "\<forall>e \<in> set es. noInterruption e"
  proof -
    from run_schedule[OF that, of s] obtain new where
      new: "sourceStarts (run es s) = sourceStarts s @ new"
        "wellScheduled (nextStartTimeRef s) new"
      by blast
    from new(2) have "sorted (map startAt new)" "backToBack new"
      by (rule wellScheduled_sorted, rule wellScheduled_backToBack)
    moreover have "\<forall>c \<in> set new. clock c \<le> startAt c \<and> nextStartTimeRef s \<le> startAt c"
      using wellScheduled_lower[OF new(2)] by blast
    ultimately show ?thesis using new(1) by blast
  qed
  from playAudio_scheduled seq show ?thesis by blast
qed

theorem C3_playback_back_to_back_witness:
  "playAudio 0 ''AAA='' listeningSession = Inr speakingSession \<and>
   sourceStarts speakingSession
     = [\<lparr>source = 5, startAt = 0, bufferDuration = 1 / 24000, clock = 0\<rparr>] \<and>
   nextStartTimeRef speakingSession = 1 / 24000 \<and>
   noInterruption (Message 0 silence) \<and>
   (\<exists>new. sourceStarts (run [Message 0 silence, Message 0 silence] listeningSession)
            = sourceStarts listeningSession @ new \<and>
          sorted (map startAt new) \<and> backToBack new)"
proof -
  have play: "playAudio 0 ''AAA='' listeningSession = Inr speakingSession"
    by (simp add: listeningSession_eq speakingSession_eq playAudio_def beginSpeaking_def
          scheduleBuffer_def clearSpeakingTimer_def setAIStatus_def decodeChunk_silence
          duration_def Let_def)
  have quiet: "\<forall>e \<in> set [Message 0 silence, Message 0 silence]. noInterruption e"
    by (simp add: silence_def)
  note c3 = C3_playback_back_to_back
    [of 0 "''AAA=''" listeningSession speakingSession "[Message 0 silence, Message 0 silence]"]
  from c3 quiet have "\<exists>new. sourceStarts (run [Message 0 silence, Message 0 silence] listeningSession)
            = sourceStarts listeningSession @ new \<and>
          sorted (map startAt new) \<and> backToBack new"
    by blast
  with play quiet show ?thesis by (simp add: speakingSession_eq)
qed

subsection \<open>The sequence of statuses\<close>
















subsection \<open>The pending timer\<close>

lemma step_onlyRefTimer:
  assumes "onlyRefTimer s"
  shows "onlyRefTimer (step e s)"
proof (cases e)
  case (Click userMedia)
  show ?thesis
  proof (cases userMedia)
    case None
    with assms show ?thesis
      by (auto simp add: Click onlyRefTimer_def handleControlButtonClick_def
            handleInterruptSpeech_eq cleanup_eq startConversation_denied split: option.splits)
  next
    case (Some stream)
    with assms show ?thesis
      by (auto simp add: Click onlyRefTimer_def handleControlButtonClick_def
            handleInterruptSpeech_eq cleanup_eq startConversation_granted split: option.splits)
  qed
next
  case Open
  with assms show ?thesis
    by (auto simp add: onlyRefTimer_def onopen_def settled_def setAIStatus_def Let_def
          split: option.splits)
next
  case (Message now m)
  let ?t = "handleText m s"
  have t: "pendingTimers ?t = pendingTimers s" "aiSpeakingTimerRef ?t = aiSpeakingTimerRef s"
    by (simp_all add: handleText_eq flushTurn_eq appendTranscriptions_eq Let_def)
  show ?thesis
  proof (cases rule: handleAudio_cases[of now m ?t])
    case Skipped
    with assms show ?thesis
      by (auto simp add: Message onmessage_def Let_def settled_def onlyRefTimer_def t
            onInterrupted_eq split: option.splits)
  next
    case (Malformed err)
    with assms show ?thesis
      by (auto simp add: Message onmessage_def Let_def settled_def onlyRefTimer_def t)
  next
    case (Thrown err a)
    with assms show ?thesis
      by (auto simp add: Message onmessage_def Let_def settled_def onlyRefTimer_def t
            beginSpeaking_eq split: option.splits)
  next
    case (Scheduled a b)
    from assms have "pendingTimers s -
        (case aiSpeakingTimerRef s of None \<Rightarrow> {} | Some t \<Rightarrow> if t \<noteq> 0 then {t} else {}) = {}"
      by (auto simp add: onlyRefTimer_def split: option.splits)
    with Scheduled(5) show ?thesis
      by (simp add: Message onmessage_def Let_def settled_def onlyRefTimer_def t onInterrupted_eq)
  qed
next
  case (AudioProcess inputData)
  with assms show ?thesis by (simp add: onlyRefTimer_def onaudioprocess_eq)
next
  case (TimerFired t)
  with assms show ?thesis
    by (auto simp add: onlyRefTimer_def timerFired_def setAIStatus_def)
next
  case (Ended src)
  with assms show ?thesis by (simp add: onlyRefTimer_def onended_def)
next
  case ErrorEvent
  with assms show ?thesis
    by (auto simp add: onlyRefTimer_def onerror_eq cleanup_eq split: option.splits)
next
  case CloseEvent
  with assms show ?thesis
    by (auto simp add: onlyRefTimer_def onclose_def cleanup_eq split: option.splits)
qed

lemma run_onlyRefTimer: "onlyRefTimer s \<Longrightarrow> onlyRefTimer (run es s)"
  by (induction es arbitrary: s) (simp_all add: step_onlyRefTimer)

subsection \<open>Claims about teardown\<close>

text \<open>
  C1, as amended. From any state, \<open>cleanup\<close> cancels the timer that the timer ref holds, so
  that no timer is pending afterwards when only that timer can be pending, which is the case
  after every run of the component from its initial state. It stops every track of the
  microphone stream and clears its ref, disconnects the capture node and clears its ref, closes
  each of the two audio contexts that is present and not closed, closes the session and clears
  its ref, stops every source of the active set and empties the set, and sets the status to
  idle. It leaves the next-start cursor as it is.
\<close>

theorem C1_cleanup_releases_resources:
  "(\<forall>t. aiSpeakingTimerRef s = Some t \<and> t \<noteq> 0 \<longrightarrow> t \<notin> pendingTimers (cleanup s)) \<and>
   (onlyRefTimer s \<longrightarrow> pendingTimers (cleanup s) = {}) \<and>
   onlyRefTimer (run es (initial store)) \<and>
   trackStops (cleanup s)
     = trackStops s @ (case mediaStreamRef s of None \<Rightarrow> [] | Some tracks \<Rightarrow> tracks) \<and>
   mediaStreamRef (cleanup s) = None \<and>
   disconnects (cleanup s)
     = disconnects s @ (case scriptProcessorRef s of None \<Rightarrow> [] | Some node \<Rightarrow> [node]) \<and>
   scriptProcessorRef (cleanup s) = None \<and>
   inputAudioContextRef (cleanup s)
     = map_option (\<lambda>c. c\<lparr>state := Closed\<rparr>) (inputAudioContextRef s) \<and>
   outputAudioContextRef (cleanup s)
     = map_option (\<lambda>c. c\<lparr>state := Closed\<rparr>) (outputAudioContextRef s) \<and>
   contextCloses (cleanup s)
     = contextCloses s
       @ (case inputAudioContextRef s of
            None \<Rightarrow> [] | Some c \<Rightarrow> if state c \<noteq> Closed then [ctxId c] else [])
       @ (case outputAudioContextRef s of
            None \<Rightarrow> [] | Some c \<Rightarrow> if state c \<noteq> Closed then [ctxId c] else []) \<and>
   sessionCloses (cleanup s)
     = sessionCloses s @ (case sessionPromiseRef s of None \<Rightarrow> [] | Some p \<Rightarrow> [p]) \<and>
   sessionPromiseRef (cleanup s) = None \<and>
   sourceStops (cleanup s) = sourceStops s @ sourcesRef s \<and>
   sourcesRef (cleanup s) = [] \<and>
   aiStatus (cleanup s) = Idle \<and>
   nextStartTimeRef (cleanup s) = nextStartTimeRef s"
proof -
  have "\<forall>t. aiSpeakingTimerRef s = Some t \<and> t \<noteq> 0 \<longrightarrow> t \<notin> pendingTimers (cleanup s)"
    by (simp add: cleanup_timers)
  moreover have "onlyRefTimer s \<longrightarrow> pendingTimers (cleanup s) = {}"
    by (auto simp: onlyRefTimer_def cleanup_timers split: option.splits)
  moreover have "onlyRefTimer (run es (initial store))"
    by (rule run_onlyRefTimer) (simp add: onlyRefTimer_def initial_def)
  ultimately show ?thesis
    by (simp only: cleanup_tracks cleanup_node cleanup_contexts cleanup_session cleanup_sources
          cleanup_status cleanup_unchanged simp_thms)
qed

theorem C1_cleanup_releases_resources_witness:
  "aiSpeakingTimerRef speakingSession = Some 6 \<and> (6 :: nat) \<noteq> 0 \<and>
   onlyRefTimer speakingSession \<and>
   pendingTimers (cleanup speakingSession) = {} \<and>
   trackStops (cleanup speakingSession) = [1] \<and>
   disconnects (cleanup speakingSession) = [4] \<and>
   contextCloses (cleanup speakingSession) = [1, 2] \<and>
   sessionCloses (cleanup speakingSession) = [3] \<and>
   sourceStops (cleanup speakingSession) = [5] \<and>
   sourcesRef (cleanup speakingSession) = [] \<and>
   aiStatus (cleanup speakingSession) = Idle"
  using C1_cleanup_releases_resources [of speakingSession]
  by (simp add: speakingSession_eq onlyRefTimer_def)

text \<open>
  The claim as stated fails on the cursor: after one chunk of audio has been scheduled,
  \<open>cleanup\<close> leaves the cursor at the end of that chunk.
\<close>

theorem C1_cursor_counterexample:
  "nextStartTimeRef (cleanup speakingSession) = 1 / 24000 \<and>
   nextStartTimeRef (cleanup speakingSession) \<noteq> 0"
  by (simp add: cleanup_unchanged speakingSession_eq)

text \<open>
  C2. When \<open>getUserMedia\<close> is rejected, \<open>startConversation\<close> stores the fixed message and
  sets the status to error, and then \<open>cleanup\<close> sets the status to idle: the handler ends
  in the idle state, in which the message is not rendered.
\<close>

theorem C2_denied_start_ends_idle:
  "error (startConversation None s)
     = Some ''Could not access microphone. Please grant permission and try again.'' \<and>
   statusTrace (startConversation None s) = statusTrace s @ [Connecting, Error, Idle] \<and>
   aiStatus (startConversation None s) = Idle"
  by (simp add: startConversation_def setError_def setTranscription_def persistEffect_def
        cleanup_def cleanup_steps)

text \<open>
  C7. A second \<open>cleanup\<close> right after a first one changes nothing but the record of the
  status calls: it makes no further call on a track, a node, a context, the session or a
  source. The status is idle after each of the two. On the component that has acquired
  nothing, \<open>cleanup\<close> makes no call at all. No step of \<open>cleanup\<close> can raise.
\<close>

theorem C7_cleanup_idempotent:
  "cleanup (cleanup s) = (cleanup s)\<lparr>statusTrace := statusTrace s @ [Idle, Idle]\<rparr> \<and>
   aiStatus (cleanup s) = Idle \<and>
   aiStatus (cleanup (cleanup s)) = Idle \<and>
   cleanup (initial store) = (initial store)\<lparr>statusTrace := [Idle]\<rparr>"
proof -
  have "cleanup (cleanup s) = (cleanup s)\<lparr>statusTrace := statusTrace s @ [Idle, Idle]\<rparr>"
    by (cases s) (simp add: cleanup_def cleanup_steps option.map_comp comp_def split: option.splits)
  moreover have "cleanup (initial store) = (initial store)\<lparr>statusTrace := [Idle]\<rparr>"
    by (simp add: cleanup_def cleanup_steps initial_def)
  ultimately show ?thesis by (simp add: cleanup_status)
qed


end
